theory Spec2Isabelle
  imports Main "HOL-Library.Sublist"
begin

section \<open>Python values used by the CORD-19 loader\<close>

text \<open>
  The development embeds \<^verbatim>\<open>paperetl/cord19/execute.py\<close> and
  \<^verbatim>\<open>paperetl/cord19/section.py\<close>. A Python \<^verbatim>\<open>str\<close> is a \<^typ>\<open>string\<close>
  whose characters are read as the code points U+0000 to U+00FF; the character classes
  below are the ones Python 3 uses on that range. Exceptions are values of type \<open>exn\<close>,
  and a computation that may raise has the type \<open>exn + 'a\<close>.
\<close>

datatype exn = KeyError | IndexError | ValueError | TypeError | AttributeError | OSError
  | JSONDecodeError | ServiceError string

text \<open>Sequencing of computations that may raise: the first exception ends the rest.\<close>

definition bind :: "exn + 'a \<Rightarrow> ('a \<Rightarrow> exn + 'b) \<Rightarrow> exn + 'b" where
  "bind m f = (case m of Inl e \<Rightarrow> Inl e | Inr x \<Rightarrow> f x)"

text \<open>A list comprehension whose element expression may raise.\<close>

fun traverse :: "('a \<Rightarrow> exn + 'b) \<Rightarrow> 'a list \<Rightarrow> exn + 'b list" where
  "traverse f [] = Inr []"
| "traverse f (x # xs) =
     (case f x of
        Inl e \<Rightarrow> Inl e
      | Inr y \<Rightarrow> (case traverse f xs of Inl e \<Rightarrow> Inl e | Inr ys \<Rightarrow> Inr (y # ys)))"

text \<open>\<^verbatim>\<open>xs[i]\<close> for a non-negative index: IndexError out of range.\<close>

definition getitem :: "'a list \<Rightarrow> nat \<Rightarrow> exn + 'a" where
  "getitem xs i = (if i < length xs then Inr (xs ! i) else Inl IndexError)"

text \<open>
  Python's truth value of a value that is a string or \<^verbatim>\<open>None\<close>: false for
  \<^verbatim>\<open>None\<close> and for the empty string.
\<close>

definition truthy :: "string option \<Rightarrow> bool" where
  "truthy v = (case v of None \<Rightarrow> False | Some s \<Rightarrow> s \<noteq> [])"

subsection \<open>Character classes\<close>

definition code :: "char \<Rightarrow> nat" where
  "code c = of_char c"

text \<open>\<^verbatim>\<open>str.isdigit\<close> on one character: the decimal digits and the superscripts 2, 3, 1.\<close>

definition isdigit_char :: "char \<Rightarrow> bool" where
  "isdigit_char c = (let n = code c in
     (48 \<le> n \<and> n \<le> 57) \<or> n = 178 \<or> n = 179 \<or> n = 185)"

definition isdigit :: "string \<Rightarrow> bool" where
  "isdigit s = (s \<noteq> [] \<and> list_all isdigit_char s)"

text \<open>\<^verbatim>\<open>str.isspace\<close>, which is also the class \<^verbatim>\<open>\s\<close> of a \<^verbatim>\<open>str\<close> pattern.\<close>

definition isspace :: "char \<Rightarrow> bool" where
  "isspace c = (let n = code c in
     (9 \<le> n \<and> n \<le> 13) \<or> (28 \<le> n \<and> n \<le> 32) \<or> n = 133 \<or> n = 160)"

text \<open>The class \<^verbatim>\<open>\w\<close> of a \<^verbatim>\<open>str\<close> pattern: alphanumeric characters and the underscore.\<close>

definition isword :: "char \<Rightarrow> bool" where
  "isword c = (let n = code c in
     (48 \<le> n \<and> n \<le> 57) \<or> (65 \<le> n \<and> n \<le> 90) \<or> n = 95 \<or> (97 \<le> n \<and> n \<le> 122)
     \<or> n = 170 \<or> n = 178 \<or> n = 179 \<or> n = 181 \<or> n = 185 \<or> n = 186
     \<or> (188 \<le> n \<and> n \<le> 190) \<or> (192 \<le> n \<and> n \<le> 214) \<or> (216 \<le> n \<and> n \<le> 246)
     \<or> (248 \<le> n \<and> n \<le> 255))"

definition lower_char :: "char \<Rightarrow> char" where
  "lower_char c = (let n = code c in
     if (65 \<le> n \<and> n \<le> 90) \<or> (192 \<le> n \<and> n \<le> 214) \<or> (216 \<le> n \<and> n \<le> 222)
     then char_of (n + 32) else c)"

definition lower :: "string \<Rightarrow> string" where
  "lower s = map lower_char s"

text \<open>
  \<^verbatim>\<open>str.upper\<close>. The upper-case forms of U+00B5, U+00DF and U+00FF lie outside the
  range of \<^typ>\<open>char\<close>; these three characters are left as they are. Section names are the
  only strings that pass through \<open>upper\<close>, and no statement below depends on them.
\<close>

definition upper_char :: "char \<Rightarrow> char" where
  "upper_char c = (let n = code c in
     if (97 \<le> n \<and> n \<le> 122) \<or> (224 \<le> n \<and> n \<le> 246) \<or> (248 \<le> n \<and> n \<le> 254)
     then char_of (n - 32) else c)"

definition upper :: "string \<Rightarrow> string" where
  "upper s = map upper_char s"

text \<open>\<^verbatim>\<open>str.strip()\<close>: white space removed at both ends.\<close>

definition strip :: "string \<Rightarrow> string" where
  "strip s = rev (dropWhile isspace (rev (dropWhile isspace s)))"

subsection \<open>Substrings, splitting, paths\<close>

text \<open>\<^verbatim>\<open>x in text\<close> for two strings.\<close>

fun contains :: "string \<Rightarrow> string \<Rightarrow> bool" where
  "contains x [] = (x = [])"
| "contains x (c # cs) = (prefix x (c # cs) \<or> contains x cs)"

text \<open>
  \<^verbatim>\<open>s.split(sep)\<close> for a non-empty separator: \<open>cur\<close> holds, reversed, the characters
  of the piece being read. The leftmost occurrence of the separator ends a piece.
\<close>

function split_from :: "string \<Rightarrow> string \<Rightarrow> string \<Rightarrow> string list" where
  "split_from sep cur s =
     (if s = [] then [rev cur]
      else if sep \<noteq> [] \<and> prefix sep s then rev cur # split_from sep [] (drop (length sep) s)
      else split_from sep (hd s # cur) (tl s))"
  by pat_completeness auto
termination
  by (relation "measure (\<lambda>(sep, cur, s). length s)") (auto simp: neq_Nil_conv)

definition split :: "string \<Rightarrow> string \<Rightarrow> string list" where
  "split s sep = split_from sep [] s"

text \<open>\<^verbatim>\<open>str.replace(old, new)\<close> for a single character \<open>old\<close>.\<close>

definition replace_char :: "char \<Rightarrow> string \<Rightarrow> string \<Rightarrow> string" where
  "replace_char old new s = concat (map (\<lambda>c. if c = old then new else [c]) s)"

text \<open>\<^verbatim>\<open>os.path.join(a, b)\<close> on a POSIX system.\<close>

definition path_join :: "string \<Rightarrow> string \<Rightarrow> string" where
  "path_join a b =
     (if prefix ''/'' b then b
      else if a = [] \<or> suffix ''/'' a then a @ b
      else a @ ''/'' @ b)"

text \<open>\<^verbatim>\<open>s.encode("utf-8")\<close>, as a list of byte values.\<close>

definition utf8 :: "string \<Rightarrow> nat list" where
  "utf8 s = concat (map (\<lambda>c. let n = code c in
     if n < 128 then [n] else [192 + n div 64, 128 + n mod 64]) s)"

subsection \<open>Datetimes\<close>

text \<open>
  A \<^verbatim>\<open>datetime\<close>. \<open>tzinfo\<close> is the offset from UTC in seconds of an aware datetime
  and \<open>None\<close> for a naive one. Two naive datetimes are compared field by field.
\<close>

record datetime =
  year :: nat
  month :: nat
  day :: nat
  hour :: nat
  minute :: nat
  second :: nat
  microsecond :: nat
  tzinfo :: "int option"

definition dt_fields :: "datetime \<Rightarrow> nat list" where
  "dt_fields d = [year d, month d, day d, hour d, minute d, second d, microsecond d]"

fun lex_less :: "nat list \<Rightarrow> nat list \<Rightarrow> bool" where
  "lex_less (x # xs) (y # ys) = (x < y \<or> (x = y \<and> lex_less xs ys))"
| "lex_less xs ys = False"

definition datetime_less :: "datetime \<Rightarrow> datetime \<Rightarrow> bool" where
  "datetime_less a b = lex_less (dt_fields a) (dt_fields b)"

text \<open>
  \<^verbatim>\<open>a >= b\<close> for a naive \<open>b\<close>: comparing an aware datetime with a naive one raises
  \<^verbatim>\<open>TypeError\<close>.
\<close>

definition datetime_ge_naive :: "datetime \<Rightarrow> datetime \<Rightarrow> exn + bool" where
  "datetime_ge_naive a b =
     (case tzinfo a of
        Some offset \<Rightarrow> Inl TypeError
      | None \<Rightarrow> Inr (\<not> datetime_less a b))"

text \<open>The naive datetime at midnight of a day.\<close>

definition mk_datetime :: "nat \<Rightarrow> nat \<Rightarrow> nat \<Rightarrow> datetime" where
  "mk_datetime y m d =
     \<lparr>year = y, month = m, day = d, hour = 0, minute = 0, second = 0, microsecond = 0,
      tzinfo = None\<rparr>"

text \<open>
  \<^verbatim>\<open>datetime(y, m, d)\<close>: the years run from 1 to 9999, and a date that does not exist
  raises \<^verbatim>\<open>ValueError\<close>.
\<close>

definition days_in_month :: "nat \<Rightarrow> nat \<Rightarrow> nat" where
  "days_in_month y m =
     (if m = 2 then (if y mod 4 = 0 \<and> (y mod 100 \<noteq> 0 \<or> y mod 400 = 0) then 29 else 28)
      else if m = 4 \<or> m = 6 \<or> m = 9 \<or> m = 11 then 30 else 31)"

definition datetime_new :: "nat \<Rightarrow> nat \<Rightarrow> nat \<Rightarrow> exn + datetime" where
  "datetime_new y m d =
     (if 1 \<le> y \<and> y \<le> 9999 \<and> 1 \<le> m \<and> m \<le> 12 \<and> 1 \<le> d \<and> d \<le> days_in_month y m
      then Inr (mk_datetime y m d) else Inl ValueError)"

text \<open>The decimal digits, and the number written by a string of decimal digits.\<close>

definition ascii_digit :: "char \<Rightarrow> bool" where
  "ascii_digit c = (48 \<le> code c \<and> code c \<le> 57)"

definition digits_value :: "string \<Rightarrow> nat" where
  "digits_value s = foldl (\<lambda>acc c. 10 * acc + (code c - 48)) 0 s"

section \<open>Rows, companion files and the services the loader calls\<close>

text \<open>
  One row of \<^verbatim>\<open>metadata.csv\<close>, as \<^verbatim>\<open>csv.DictReader\<close> yields it: for each column
  of the header a string, or \<^verbatim>\<open>None\<close> when the line is too short to have the column.
  The header is taken to name all the columns that the loader reads.
\<close>

record row =
  cord_uid :: "string option"
  sha :: "string option"
  source_x :: "string option"
  title :: "string option"
  doi :: "string option"
  abstract :: "string option"
  publish_time :: "string option"
  authors :: "string option"
  journal :: "string option"
  url :: "string option"
  pdf_json_files :: "string option"
  pmc_json_files :: "string option"

text \<open>
  A companion full-text file after \<^verbatim>\<open>json.load\<close>. Each of the three keys the loader
  reads may be missing (\<open>None\<close>; the access raises). \<open>body_text\<close> lists the pairs
  (\<^verbatim>\<open>section\<close>, \<^verbatim>\<open>text\<close>), \<open>ref_entries\<close> the entries by name, each with its
  \<^verbatim>\<open>html\<close> when the key is present, and \<open>bib_entries\<close> the titles of the
  bibliography entries.
\<close>

record fulltext =
  body_text :: "(string \<times> string) list option"
  ref_entries :: "(string \<times> string option) list option"
  bib_entries :: "string list option"

type_synonym study = "int option \<times> string option \<times> string option \<times> string option \<times> string option list"

text \<open>
  Everything the two modules import and call, and the files they read. The date parser,
  the loading of a companion file and the annotation services may raise; the text
  utilities are functions on strings. \<open>free_parse\<close> is what the date parser does with
  a string that is not a year followed by \<^verbatim>\<open>-01-01\<close>. \<open>metadata_csv\<close> gives, for a
  path, the rows that the reader yields and the exception that ends the reading, if there
  is one (the file cannot be opened, or a line cannot be read). \<open>'tok\<close> is the type of
  the tokens of one text.
\<close>

record 'tok env =
  free_parse :: "string \<Rightarrow> exn + datetime"
  sha1_hexdigest :: "nat list \<Rightarrow> string"
  text_transform :: "string \<Rightarrow> string"
  sent_tokenize :: "string \<Rightarrow> string list"
  table_parse :: "string \<Rightarrow> string list"
  json_load :: "string \<Rightarrow> exn + fulltext"
  grammar_parse :: "string list \<Rightarrow> exn + 'tok list"
  grammar_label :: "'tok \<Rightarrow> exn + string option"
  study_parse :: "(string option \<times> string \<times> 'tok) list \<Rightarrow> string \<Rightarrow> exn + study"
  metadata_csv :: "string \<Rightarrow> row list \<times> exn option"
  entry_csv :: "string \<Rightarrow> (string \<times> string) list"
  home :: string

section \<open>Execute: hash, date, url\<close>

text \<open>
  The fallback of \<^verbatim>\<open>getHash\<close>: the digest of the encoded title. \<^verbatim>\<open>None\<close> has no
  \<^verbatim>\<open>encode\<close>.
\<close>

definition title_digest :: "'tok env \<Rightarrow> row \<Rightarrow> exn + string" where
  "title_digest E r =
     (case title r of
        None \<Rightarrow> Inl AttributeError
      | Some t \<Rightarrow> Inr (sha1_hexdigest E (utf8 t)))"

text \<open>
  \<^verbatim>\<open>Execute.getHash\<close>. The first element of the split list is read with \<^verbatim>\<open>[0]\<close>;
  an empty first element, like an empty or missing column, falls back to the digest of
  the title.
\<close>

definition getHash :: "'tok env \<Rightarrow> row \<Rightarrow> exn + string" where
  "getHash E r =
     bind (case sha r of
             Some s \<Rightarrow>
               if s \<noteq> [] then bind (getitem (split s ''; '') 0) (\<lambda>x. Inr (Some x))
               else Inr None
           | None \<Rightarrow> Inr None)
       (\<lambda>s. if truthy s then (case s of Some x \<Rightarrow> Inr x | None \<Rightarrow> title_digest E r)
            else title_digest E r)"

text \<open>
  \<^verbatim>\<open>dateutil.parser.parse\<close>. A year of four decimal digits followed by \<^verbatim>\<open>-01-01\<close>
  is read as year, month and day, and the parser builds \<^verbatim>\<open>datetime(year, 1, 1)\<close>,
  which raises for the year 0. Every other string is left to \<open>free_parse\<close>.
\<close>

definition parser_parse :: "'tok env \<Rightarrow> string \<Rightarrow> exn + datetime" where
  "parser_parse E s =
     (if length s = 10 \<and> list_all ascii_digit (take 4 s) \<and> drop 4 s = ''-01-01''
      then datetime_new (digits_value (take 4 s)) 1 1
      else free_parse E s)"

text \<open>
  \<^verbatim>\<open>Execute.getDate\<close>. The bare \<^verbatim>\<open>except\<close> turns every exception of the parser
  into \<open>None\<close>.
\<close>

definition getDate :: "'tok env \<Rightarrow> row \<Rightarrow> exn + datetime option" where
  "getDate E r =
     (case publish_time r of
        None \<Rightarrow> Inr None
      | Some date \<Rightarrow>
          if date \<noteq> [] then
            (case parser_parse E
                    (if isdigit date \<and> length date = 4 then date @ ''-01-01'' else date) of
               Inr d \<Rightarrow> Inr (Some d)
             | Inl e \<Rightarrow> Inr None)
          else Inr None)"

text \<open>
  \<^verbatim>\<open>Execute.getUrl\<close>. Without a usable url the result is the DOI link; concatenating
  \<^verbatim>\<open>None\<close> raises \<^verbatim>\<open>TypeError\<close>.
\<close>

definition getUrl :: "row \<Rightarrow> exn + string" where
  "getUrl r =
     (let urls = (case url r of
                    Some u \<Rightarrow>
                      if u \<noteq> [] then filter (\<lambda>x. \<not> contains ''https://api.'' x) (split u ''; '')
                      else []
                  | None \<Rightarrow> [])
      in case urls of
           u # _ \<Rightarrow> Inr u
         | [] \<Rightarrow> (case doi r of Some d \<Rightarrow> Inr (''https://doi.org/'' @ d) | None \<Rightarrow> Inl TypeError))"

section \<open>Execute: keyword tags\<close>

text \<open>
  The patterns of \<^verbatim>\<open>getTags\<close> use literals, the classes \<^verbatim>\<open>\s\<close> and
  \<^verbatim>\<open>[\-\s]\<close>, optional groups, alternation and the word boundary \<^verbatim>\<open>\b\<close>.
\<close>

datatype regex = Eps | Lit char | Cls "char \<Rightarrow> bool" | Seq regex regex | Alt regex regex
  | Opt regex | Boundary

text \<open>
  A position in the text is the character before it, if any, and the rest of the text.
  \<open>rmatch r p\<close> lists the positions at which a match of \<open>r\<close> started at \<open>p\<close> can end, in
  the order a backtracking matcher tries them (left alternative first, optional part
  taken first).
\<close>

type_synonym pos = "char option \<times> string"

definition at_boundary :: "pos \<Rightarrow> bool" where
  "at_boundary p =
     ((case fst p of None \<Rightarrow> False | Some c \<Rightarrow> isword c)
      \<noteq> (case snd p of [] \<Rightarrow> False | c # _ \<Rightarrow> isword c))"

fun rmatch :: "regex \<Rightarrow> pos \<Rightarrow> pos list" where
  "rmatch Eps p = [p]"
| "rmatch (Lit c) p = (case snd p of [] \<Rightarrow> [] | x # xs \<Rightarrow> if x = c then [(Some x, xs)] else [])"
| "rmatch (Cls P) p = (case snd p of [] \<Rightarrow> [] | x # xs \<Rightarrow> if P x then [(Some x, xs)] else [])"
| "rmatch (Seq a b) p = concat (map (rmatch b) (rmatch a p))"
| "rmatch (Alt a b) p = rmatch a p @ rmatch b p"
| "rmatch (Opt a) p = rmatch a p @ [p]"
| "rmatch Boundary p = (if at_boundary p then [p] else [])"

text \<open>
  \<^verbatim>\<open>re.findall\<close>: the matched substrings, scanning from the left; after a match the
  scan goes on where the match ended (one character further after an empty match).
\<close>

function findall_from :: "regex \<Rightarrow> pos \<Rightarrow> string list" where
  "findall_from r p =
     (case rmatch r p of
        [] \<Rightarrow> (case snd p of [] \<Rightarrow> [] | x # xs \<Rightarrow> findall_from r (Some x, xs))
      | q # _ \<Rightarrow>
          (if length (snd q) < length (snd p)
           then take (length (snd p) - length (snd q)) (snd p) # findall_from r q
           else [] # (case snd p of [] \<Rightarrow> [] | x # xs \<Rightarrow> findall_from r (Some x, xs))))"
  by pat_completeness auto
termination
  by (relation "measure (\<lambda>(r, p). length (snd p))") auto

definition findall :: "regex \<Rightarrow> string \<Rightarrow> string list" where
  "findall r s = findall_from r (None, s)"

fun lit :: "string \<Rightarrow> regex" where
  "lit [] = Eps"
| "lit [c] = Lit c"
| "lit (c # cs) = Seq (Lit c) (lit cs)"

fun seqs :: "regex list \<Rightarrow> regex" where
  "seqs [] = Eps"
| "seqs [r] = r"
| "seqs (r # rs) = Seq r (seqs rs)"

fun alts :: "regex list \<Rightarrow> regex" where
  "alts [] = Cls (\<lambda>c. False)"
| "alts [r] = r"
| "alts (r # rs) = Alt r (alts rs)"

text \<open>The class \<^verbatim>\<open>[\-\s]\<close>.\<close>

definition dash_or_space :: regex where
  "dash_or_space = Cls (\<lambda>c. c = CHR ''-'' \<or> isspace c)"

text \<open>The eight keyword patterns, in the order of the source.\<close>

definition keyword_patterns :: "regex list" where
  "keyword_patterns =
     [seqs [lit ''2019'', Opt dash_or_space, lit ''n'', Opt dash_or_space, lit ''cov''],
      lit ''2019 novel coronavirus'',
      seqs [lit ''coronavirus 2'', Opt (lit ''019'')],
      seqs [lit ''coronavirus disease '', Opt (lit ''20''), lit ''19''],
      seqs [lit ''covid'', Opt (seqs [Opt dash_or_space, Opt (lit ''20''), lit ''19''])],
      seqs [lit ''n'', Opt (Cls isspace), lit ''cov'', Opt dash_or_space, lit ''2019''],
      seqs [lit ''sars'', dash_or_space, lit ''cov'', Opt (lit ''-''), lit ''2''],
      seqs [lit ''wuhan '', alts [lit ''coronavirus'', lit ''cov'', lit ''pneumonia'']]]"

text \<open>Each keyword between word boundaries, joined by \<^verbatim>\<open>|\<close>.\<close>

definition keyword_regex :: regex where
  "keyword_regex = alts (map (\<lambda>k. seqs [Boundary, k, Boundary]) keyword_patterns)"

type_synonym sect = "string option \<times> string"

text \<open>\<^verbatim>\<open>Execute.getTags\<close>: the loop leaves at the first section with a match.\<close>

fun getTags :: "sect list \<Rightarrow> string option" where
  "getTags [] = None"
| "getTags ((name, text) # sections) =
     (if findall keyword_regex (lower text) \<noteq> [] then Some ''COVID-19'' else getTags sections)"

section \<open>Section: text sections of a row\<close>

text \<open>\<^verbatim>\<open>re.sub(r"^\[", "", text)\<close>: one opening bracket at the start is removed.\<close>

definition strip_open :: "string \<Rightarrow> string" where
  "strip_open s = (case s of [] \<Rightarrow> [] | c # cs \<Rightarrow> if c = CHR ''['' then cs else s)"

text \<open>
  \<^verbatim>\<open>re.sub(r"\]$", "", text)\<close>: \<^verbatim>\<open>$\<close> matches at the end of the text and before a
  newline that ends the text.
\<close>

definition strip_close :: "string \<Rightarrow> string" where
  "strip_close s =
     (if suffix '']'' s then butlast s
      else if suffix [CHR '']'', CHR 0x0A] s then butlast (butlast s) @ [CHR 0x0A]
      else s)"

text \<open>\<^verbatim>\<open>Section.files\<close>.\<close>

definition files :: "row \<Rightarrow> string list" where
  "files r =
     concat (map (\<lambda>column.
        case column of
          Some paths \<Rightarrow> if paths \<noteq> [] then split paths ''; '' else []
        | None \<Rightarrow> [])
      [pdf_json_files r, pmc_json_files r])"

text \<open>\<^verbatim>\<open>Section.filtered\<close>: the fragments, the loop over the sections, the result.\<close>

definition boilerplate :: "string list" where
  "boilerplate = [''COVID-19 resource centre'', ''permission to make all its COVID'',
     ''WHO COVID database'', ''COVID-19 public health emergency response'']"

text \<open>\<^verbatim>\<open>any([x in text for x in boilerplate])\<close>.\<close>

definition is_boilerplate :: "string \<Rightarrow> bool" where
  "is_boilerplate text = list_ex (\<lambda>x. contains x text) boilerplate"

fun filtered_loop :: "sect list \<Rightarrow> sect list \<times> string set \<Rightarrow> sect list \<times> string set" where
  "filtered_loop [] (unique, keys) = (unique, keys)"
| "filtered_loop ((name, text) # sections) (unique, keys) =
     (if text \<notin> keys \<and> \<not> is_boilerplate text
      then filtered_loop sections (unique @ [(name, text)], insert text keys)
      else filtered_loop sections (unique, keys))"

text \<open>
  \<^verbatim>\<open>list(set(citations))\<close> holds each title once; Python does not fix the order of the
  list, and nothing below depends on the order chosen here.
\<close>

definition filtered :: "sect list \<Rightarrow> string list \<Rightarrow> sect list \<times> string list" where
  "filtered sections citations = (fst (filtered_loop sections ([], {})), remdups citations)"

text \<open>The sentences of the title and of the abstract, named \<^verbatim>\<open>TITLE\<close> and \<^verbatim>\<open>ABSTRACT\<close>.\<close>

definition front_sections :: "'tok env \<Rightarrow> row \<Rightarrow> sect list" where
  "front_sections E r =
     concat (map (\<lambda>(name, column).
        case column of
          Some text \<Rightarrow>
            if text \<noteq> [] then
              map (\<lambda>x. (Some (upper name), x))
                (sent_tokenize E (text_transform E (strip_close (strip_open text))))
            else []
        | None \<Rightarrow> [])
      [(''title'', title r), (''abstract'', abstract r)])"

definition body_sections :: "'tok env \<Rightarrow> string \<times> string \<Rightarrow> sect list" where
  "body_sections E s =
     (case s of (heading, text) \<Rightarrow>
        let name = (if length (strip heading) > 0 then Some (upper heading) else None);
            text' = text_transform E (replace_char (CHR 0x0A) '' '' text)
        in map (\<lambda>x. (name, x)) (sent_tokenize E text'))"

definition ref_sections :: "'tok env \<Rightarrow> string \<times> string option \<Rightarrow> sect list" where
  "ref_sections E e =
     (case e of (name, entry) \<Rightarrow>
        (case entry of
           Some html \<Rightarrow> if html \<noteq> [] then map (\<lambda>x. (Some name, x)) (table_parse E html) else []
         | None \<Rightarrow> []))"

text \<open>
  The body of the loop over the files. The state is the list of sections, the list of
  citation titles and the lines printed. An exception raised anywhere in the
  \<^verbatim>\<open>try\<close> block is printed with the path of the file; what was added before it stays.
\<close>

type_synonym parse_state = "sect list \<times> string list \<times> (string \<times> exn) list"

definition parse_file :: "'tok env \<Rightarrow> string \<Rightarrow> string \<Rightarrow> parse_state \<Rightarrow> parse_state" where
  "parse_file E directory path st =
     (case st of (sections, citations, printed) \<Rightarrow>
        let article = path_join directory path in
        case json_load E article of
          Inl ex \<Rightarrow> (sections, citations, printed @ [(article, ex)])
        | Inr data \<Rightarrow>
            (case body_text data of
               None \<Rightarrow> (sections, citations, printed @ [(article, KeyError)])
             | Some body \<Rightarrow>
                 let sections1 = sections @ concat (map (body_sections E) body) in
                 (case ref_entries data of
                    None \<Rightarrow> (sections1, citations, printed @ [(article, KeyError)])
                  | Some refs \<Rightarrow>
                      let sections2 = sections1 @ concat (map (ref_sections E) refs) in
                      (case bib_entries data of
                         None \<Rightarrow> (sections2, citations, printed @ [(article, KeyError)])
                       | Some titles \<Rightarrow> (sections2, citations @ titles, printed)))))"

text \<open>
  \<^verbatim>\<open>Section.parse\<close> with the list of paths as an argument, and \<^verbatim>\<open>Section.parse\<close>
  itself. The result is the pair returned by \<open>filtered\<close>, together with the lines printed.
\<close>

definition parse_paths ::
  "'tok env \<Rightarrow> row \<Rightarrow> string \<Rightarrow> string list \<Rightarrow> (sect list \<times> string list) \<times> (string \<times> exn) list" where
  "parse_paths E r directory paths =
     (case fold (parse_file E directory) paths (front_sections E r, [], []) of
        (sections, citations, printed) \<Rightarrow> (filtered sections citations, printed))"

definition parse ::
  "'tok env \<Rightarrow> row \<Rightarrow> string \<Rightarrow> (sect list \<times> string list) \<times> (string \<times> exn) list" where
  "parse E r directory = parse_paths E r directory (files r)"

section \<open>Execute: one row\<close>

text \<open>
  The metadata tuple of an article, with the field names of the articles schema.
  \<open>entry\<close> is the entry date that \<^verbatim>\<open>run\<close> appends to the tuple: \<open>None\<close> for the
  tuple of twelve fields that \<^verbatim>\<open>process\<close> builds.
\<close>

record meta =
  m_id :: "string option"
  m_source :: "string option"
  m_published :: "datetime option"
  m_publication :: "string option"
  m_authors :: "string option"
  m_title :: "string option"
  m_tags :: "string option"
  m_design :: "int option"
  m_size :: "string option"
  m_sample :: "string option"
  m_method :: "string option"
  m_reference :: string

record article =
  metadata :: meta
  entry :: "string option"
  sections :: "(string option \<times> string \<times> string option) list"

text \<open>
  Modelled from the spec: the class \<^verbatim>\<open>Article\<close> of \<^verbatim>\<open>paperetl/schema/article.py\<close>
  is not among the sources. The unique id of an article is the record identifier of its
  metadata and its tags are the tags field of its metadata.
\<close>

definition uid :: "article \<Rightarrow> string option" where
  "uid a = m_id (metadata a)"

definition tags :: "article \<Rightarrow> string option" where
  "tags a = m_tags (metadata a)"

text \<open>
  The tags of a row, line 187 of \<^verbatim>\<open>process\<close>: the sections are searched unless the
  date is known and before 1 July 2019. The comparison with the naive
  \<^verbatim>\<open>datetime(2019, 7, 1)\<close> raises for a date with a time zone.
\<close>

definition cutoff :: datetime where
  "cutoff = mk_datetime 2019 7 1"

definition process_tags :: "datetime option \<Rightarrow> sect list \<Rightarrow> exn + string option" where
  "process_tags date secs =
     (case date of
        None \<Rightarrow> Inr (getTags secs)
      | Some d \<Rightarrow>
          bind (datetime_ge_naive d cutoff) (\<lambda>recent.
            if recent then Inr (getTags secs) else Inr None))"

type_synonym candidate = "string \<times> article \<times> string list option"

text \<open>
  \<^verbatim>\<open>Execute.process\<close>. The result is the hash, the article and the citation titles,
  which are \<open>None\<close> for an article without tags.
\<close>

definition process :: "'tok env \<Rightarrow> row \<times> string \<times> string \<Rightarrow> exn + candidate" where
  "process E params =
     (case params of (r, indir, models) \<Rightarrow>
      bind (getHash E r) (\<lambda>shaid.
      bind (getDate E r) (\<lambda>date.
      case fst (parse E r indir) of (sections0, citations0) \<Rightarrow>
      bind (process_tags date sections0) (\<lambda>tag.
      bind
        (if truthy tag then
           bind (grammar_parse E (map snd sections0)) (\<lambda>tokenslist.
           bind (traverse (\<lambda>(x, (name, text)).
                   bind (getitem tokenslist x) (\<lambda>t. Inr (name, text, t)))
                 (enumerate 0 sections0)) (\<lambda>sections1.
           bind (study_parse E sections1 models) (\<lambda>(design, size, sample, method, labels).
           bind (traverse (\<lambda>(x, (name, text, tokens)).
                   bind (getitem labels x) (\<lambda>l.
                     if truthy l then Inr (name, text, l)
                     else bind (grammar_label E tokens) (\<lambda>l'. Inr (name, text, l'))))
                 (enumerate 0 sections1)) (\<lambda>sections2.
           Inr (design, size, sample, method, sections2, Some citations0)))))
         else
           Inr (None, None, None, None,
                map (\<lambda>(name, text). (name, text, None)) sections0, None))
        (\<lambda>(design, size, sample, method, sections3, citations3).
           bind (getUrl r) (\<lambda>reference.
           Inr (shaid,
                \<lparr>metadata = \<lparr>m_id = cord_uid r, m_source = source_x r, m_published = date,
                    m_publication = journal r, m_authors = authors r, m_title = title r,
                    m_tags = tag, m_design = design, m_size = size, m_sample = sample,
                    m_method = method, m_reference = reference\<rparr>,
                 entry = None, sections = sections3\<rparr>,
                citations3)))))))"

section \<open>Execute: the run\<close>

text \<open>
  The storage sink: the articles saved, in the order of the calls; the citation counter
  handed to \<^verbatim>\<open>complete\<close>, if it was called; whether \<^verbatim>\<open>close\<close> was called.
\<close>

record sink =
  location :: string
  saved :: "article list"
  completed :: "(string \<rightharpoonup> nat) option"
  closed :: bool

record state =
  db :: sink
  ids :: "string option set"
  hashes :: "string set"
  citations :: "string \<rightharpoonup> nat"

text \<open>\<^verbatim>\<open>Counter.update\<close>: one more for each element; \<^verbatim>\<open>update(None)\<close> changes nothing.\<close>

definition counter_update :: "(string \<rightharpoonup> nat) \<Rightarrow> string list option \<Rightarrow> (string \<rightharpoonup> nat)" where
  "counter_update c cite =
     (case cite of
        None \<Rightarrow> c
      | Some xs \<Rightarrow> fold (\<lambda>x m. m(x \<mapsto> (case m x of None \<Rightarrow> 0 | Some n \<Rightarrow> n) + 1)) xs c)"

text \<open>
  \<^verbatim>\<open>Execute.stream\<close>, a generator: the items it yields and the exception that ends
  it, if there is one.
\<close>

definition stream ::
  "'tok env \<Rightarrow> string \<Rightarrow> string \<Rightarrow> (row \<times> string \<times> string) list \<times> exn option" where
  "stream E indir models =
     (case metadata_csv E (path_join indir ''metadata.csv'') of
        (rows, err) \<Rightarrow> (map (\<lambda>r. (r, indir, models)) rows, err))"

text \<open>\<^verbatim>\<open>Execute.entryDates\<close>.\<close>

definition entryDates :: "'tok env \<Rightarrow> string \<Rightarrow> string \<Rightarrow> (string \<rightharpoonup> string)" where
  "entryDates E indir entryfile =
     (let entryfile' = (if entryfile = [] then path_join indir ''entry-dates.csv'' else entryfile)
      in fold (\<lambda>(s, d) dates. dates(s \<mapsto> d)) (entry_csv E entryfile') Map.empty)"

text \<open>
  The body of the loop of \<^verbatim>\<open>run\<close> for one result of the pool. The lookup
  \<^verbatim>\<open>dates[sha]\<close> raises before anything is changed. The article is returned with the
  state, since the loop assigns to its metadata.
\<close>

definition consume ::
  "(string \<rightharpoonup> string) \<Rightarrow> bool \<Rightarrow> state \<Rightarrow> candidate \<Rightarrow> exn + state \<times> article" where
  "consume dates full st c =
     (case c of (shaid, art, cite) \<Rightarrow>
        let u = uid art in
        if u \<notin> ids st \<and> shaid \<notin> hashes st \<and> (full \<or> truthy (tags art)) then
          (case dates shaid of
             None \<Rightarrow> Inl KeyError
           | Some d \<Rightarrow>
               let art' = art\<lparr>entry := Some d\<rparr> in
               Inr (st\<lparr>citations := counter_update (citations st) cite,
                       db := (db st)\<lparr>saved := saved (db st) @ [art']\<rparr>,
                       ids := insert u (ids st),
                       hashes := insert shaid (hashes st)\<rparr>, art'))
        else Inr (st, art))"

text \<open>
  The loop over the results. A result that is an exception (raised in a worker, raised
  again by the iterator) and an exception of the body both end the loop; the state is
  the one reached before.
\<close>

fun run_loop ::
  "(string \<rightharpoonup> string) \<Rightarrow> bool \<Rightarrow> state \<Rightarrow> (exn + candidate) list \<Rightarrow> exn option \<times> state" where
  "run_loop dates full st [] = (None, st)"
| "run_loop dates full st (Inl e # results) = (Some e, st)"
| "run_loop dates full st (Inr c # results) =
     (case consume dates full st c of
        Inl e \<Rightarrow> (Some e, st)
      | Inr (st', art') \<Rightarrow> run_loop dates full st' results)"

subsection \<open>The pool\<close>

text \<open>
  \<^verbatim>\<open>pool.imap(func, iterable, chunksize)\<close> cuts the input into chunks of
  \<open>chunksize\<close> items. A chunk is one task: a worker applies the function to its items in
  order, and the task's result is the list of the results, or the first exception raised.
  When the input raises while a chunk is being read, the items of that chunk read so far
  are dropped and the task in its place raises the exception again. The workers finish
  the tasks in any order, given here by a schedule, the list of task numbers in the
  order of completion. The iterator hands out the results of task 0, of task 1 and so
  on; a failed task raises its exception in the consumer. The result is \<open>None\<close> when
  the schedule leaves a task unfinished.
\<close>

function chunks :: "nat \<Rightarrow> 'a list \<Rightarrow> 'a list list" where
  "chunks n xs = (if n = 0 \<or> xs = [] then [] else take n xs # chunks n (drop n xs))"
  by pat_completeness auto
termination
  by (relation "measure (\<lambda>(n, xs). length xs)") auto

datatype 'a task = Chunk "'a list" | Reraise exn

definition get_tasks :: "nat \<Rightarrow> 'a list \<times> exn option \<Rightarrow> 'a task list" where
  "get_tasks n input =
     (case input of (xs, err) \<Rightarrow>
        (case err of
           None \<Rightarrow> map Chunk (chunks n xs)
         | Some e \<Rightarrow> map Chunk (chunks n (take (length xs - length xs mod n) xs)) @ [Reraise e]))"

definition mapstar :: "('a \<Rightarrow> exn + 'b) \<Rightarrow> 'a list \<Rightarrow> exn + 'b list" where
  "mapstar f chunk = traverse f chunk"

fun run_task :: "('a \<Rightarrow> exn + 'b) \<Rightarrow> 'a task \<Rightarrow> exn + 'b list" where
  "run_task f (Chunk chunk) = mapstar f chunk"
| "run_task f (Reraise e) = Inl e"

definition finished :: "('a \<Rightarrow> exn + 'b) \<Rightarrow> 'a task list \<Rightarrow> nat list \<Rightarrow> (nat \<rightharpoonup> exn + 'b list)" where
  "finished f tasks schedule =
     fold (\<lambda>i cache. if i < length tasks then cache(i \<mapsto> run_task f (tasks ! i)) else cache)
       schedule Map.empty"

fun deliver :: "(exn + 'b list) list \<Rightarrow> (exn + 'b) list" where
  "deliver [] = []"
| "deliver (Inl e # rest) = [Inl e]"
| "deliver (Inr ys # rest) = map Inr ys @ deliver rest"

definition imap ::
  "('a \<Rightarrow> exn + 'b) \<Rightarrow> 'a list \<times> exn option \<Rightarrow> nat \<Rightarrow> nat list \<Rightarrow> (exn + 'b) list option" where
  "imap f input chunksize schedule =
     (let tasks = get_tasks chunksize input
      in map_option deliver (those (map (finished f tasks schedule) [0..<length tasks])))"

subsection \<open>Execute.run\<close>

definition initial :: "string \<Rightarrow> state" where
  "initial dburl =
     \<lparr>db = \<lparr>location = dburl, saved = [], completed = None, closed = False\<rparr>,
      ids = {}, hashes = {}, citations = Map.empty\<rparr>"

text \<open>What follows the loop: \<^verbatim>\<open>complete\<close> and \<^verbatim>\<open>close\<close>, unless an exception left it.\<close>

definition finish :: "exn option \<times> state \<Rightarrow> exn option \<times> state" where
  "finish res =
     (case res of
        (Some e, st) \<Rightarrow> (Some e, st)
      | (None, st) \<Rightarrow>
          (None, st\<lparr>db := (db st)\<lparr>completed := Some (citations st), closed := True\<rparr>\<rparr>))"

text \<open>
  The database url and the models directory after the defaults of \<^verbatim>\<open>run\<close>.
\<close>

definition defaults :: "'tok env \<Rightarrow> string \<Rightarrow> string \<Rightarrow> string \<times> string" where
  "defaults E dburl models =
     (if dburl = [] then
        (let u = path_join (path_join (home E) ''.cord19'') ''models'' in (u, u))
      else (dburl, models))"

text \<open>
  \<^verbatim>\<open>Execute.run\<close>, for a schedule of the pool. The result is the exception that ended
  the run, if any, and the final state.
\<close>

definition run ::
  "'tok env \<Rightarrow> nat list \<Rightarrow> string \<Rightarrow> string \<Rightarrow> string \<Rightarrow> string \<Rightarrow> bool
     \<Rightarrow> (exn option \<times> state) option" where
  "run E schedule indir dburl models entryfile full =
     (case defaults E dburl models of (dburl', models') \<Rightarrow>
      let dates = entryDates E indir entryfile
      in map_option (\<lambda>results. finish (run_loop dates full (initial dburl') results))
           (imap (process E) (stream E indir models') 100 schedule))"

text \<open>
  The run as the specification words it: the rows are processed one after the other in
  the order of the input file, and the decision to accept or to reject is folded over
  the results. An exception of the input comes after the rows read before it.
\<close>

definition sequential_results ::
  "('a \<Rightarrow> exn + 'b) \<Rightarrow> 'a list \<times> exn option \<Rightarrow> (exn + 'b) list" where
  "sequential_results f input =
     (case input of (xs, err) \<Rightarrow>
        map f xs @ (case err of None \<Rightarrow> [] | Some e \<Rightarrow> [Inl e]))"

definition run_sequential ::
  "'tok env \<Rightarrow> string \<Rightarrow> string \<Rightarrow> string \<Rightarrow> string \<Rightarrow> bool \<Rightarrow> exn option \<times> state" where
  "run_sequential E indir dburl models entryfile full =
     (case defaults E dburl models of (dburl', models') \<Rightarrow>
      let dates = entryDates E indir entryfile
      in finish (run_loop dates full (initial dburl')
           (sequential_results (process E) (stream E indir models'))))"

text \<open>
  The candidates a loop accepts, in order: those at which the list of saved articles
  grows.
\<close>

fun accepted ::
  "(string \<rightharpoonup> string) \<Rightarrow> bool \<Rightarrow> state \<Rightarrow> (exn + candidate) list \<Rightarrow> candidate list" where
  "accepted dates full st [] = []"
| "accepted dates full st (Inl e # results) = []"
| "accepted dates full st (Inr c # results) =
     (case consume dates full st c of
        Inl e \<Rightarrow> []
      | Inr (st', art') \<Rightarrow>
          (if saved (db st') = saved (db st) then [] else [c]) @ accepted dates full st' results)"

subsection \<open>Notions used to state the properties of the loop\<close>

text \<open>
  The condition under which the loop accepts a candidate: neither its unique id nor its
  hash has been accepted before, and the load is full or the article has tags.
\<close>

definition fresh :: "bool \<Rightarrow> state \<Rightarrow> candidate \<Rightarrow> bool" where
  "fresh full st c =
     (uid (fst (snd c)) \<notin> ids st \<and> fst c \<notin> hashes st \<and> (full \<or> truthy (tags (fst (snd c)))))"

text \<open>The state after an accepted candidate whose entry date is \<open>d\<close>.\<close>

definition step :: "state \<Rightarrow> candidate \<Rightarrow> string \<Rightarrow> state" where
  "step st c d =
     st\<lparr>citations := counter_update (citations st) (snd (snd c)),
        db := (db st)\<lparr>saved := saved (db st) @ [(fst (snd c))\<lparr>entry := Some d\<rparr>]\<rparr>,
        ids := insert (uid (fst (snd c))) (ids st),
        hashes := insert (fst c) (hashes st)\<rparr>"

text \<open>
  What a loop that starts in \<open>st\<close> and accepts the candidates \<open>acc\<close>, in this order,
  leaves behind in \<open>fin\<close>.
\<close>

definition trace_ok ::
  "(string \<rightharpoonup> string) \<Rightarrow> state \<Rightarrow> state \<Rightarrow> candidate list \<Rightarrow> bool" where
  "trace_ok dates st fin acc =
     (saved (db fin) = saved (db st) @ map (\<lambda>c. (fst (snd c))\<lparr>entry := dates (fst c)\<rparr>) acc
      \<and> ids fin = ids st \<union> set (map (\<lambda>c. uid (fst (snd c))) acc)
      \<and> hashes fin = hashes st \<union> set (map fst acc)
      \<and> distinct (map (\<lambda>c. uid (fst (snd c))) acc)
      \<and> distinct (map fst acc)
      \<and> set (map (\<lambda>c. uid (fst (snd c))) acc) \<inter> ids st = {}
      \<and> set (map fst acc) \<inter> hashes st = {}
      \<and> citations fin = fold (\<lambda>c m. counter_update m (snd (snd c))) acc (citations st)
      \<and> list_all (\<lambda>c. dates (fst c) \<noteq> None) acc)"

section \<open>A small input for the concrete cases\<close>

text \<open>
  Three rows and two companion files. Row A is dated 2020 and its title names the
  disease. Row B is dated 2018; its companion file names the disease and cites a paper
  that no other file cites; a second companion file of row B does not exist. Row C
  carries the hash of row A.
\<close>

definition rowA :: row where
  "rowA = \<lparr>cord_uid = Some ''u1'', sha = Some ''h1; h1b'', source_x = Some ''PMC'',
     title = Some ''COVID-19 in Wuhan'', doi = Some ''10.1/a'', abstract = Some [],
     publish_time = Some ''2020'', authors = Some ''A'', journal = Some ''J'',
     url = Some [], pdf_json_files = Some ''a.json'', pmc_json_files = Some []\<rparr>"

definition rowB :: row where
  "rowB = \<lparr>cord_uid = Some ''u2'', sha = Some [], source_x = Some ''PMC'',
     title = Some ''Old flu'', doi = Some ''10.1/b'', abstract = Some [],
     publish_time = Some ''2018-03-05'', authors = Some ''B'', journal = Some ''J'',
     url = Some [], pdf_json_files = Some ''b.json; missing.json'', pmc_json_files = Some []\<rparr>"

definition rowC :: row where
  "rowC = \<lparr>cord_uid = Some ''u3'', sha = Some ''h1'', source_x = Some ''PMC'',
     title = Some ''Another title'', doi = Some ''10.1/c'', abstract = Some [],
     publish_time = Some [], authors = Some ''C'', journal = Some ''J'',
     url = Some [], pdf_json_files = Some [], pmc_json_files = Some []\<rparr>"

text \<open>
  A row without title, abstract and files, a row whose date carries a time zone, and the
  row of a line that ends after its first column.
\<close>

definition rowD :: row where
  "rowD = \<lparr>cord_uid = Some ''u0'', sha = Some ''h0'', source_x = Some ''PMC'',
     title = Some [], doi = Some ''10.1/d'', abstract = Some [],
     publish_time = Some [], authors = Some [], journal = Some [],
     url = Some [], pdf_json_files = Some [], pmc_json_files = Some []\<rparr>"

definition rowZ :: row where
  "rowZ = rowB\<lparr>publish_time := Some ''2018-03-05T00:00:00Z''\<rparr>"

definition short_row :: row where
  "short_row = \<lparr>cord_uid = Some ''u4'', sha = None, source_x = None, title = None, doi = None,
     abstract = None, publish_time = None, authors = None, journal = None, url = None,
     pdf_json_files = None, pmc_json_files = None\<rparr>"

definition sample_env :: "string env" where
  "sample_env =
     \<lparr>free_parse = (\<lambda>s. if s = ''2018-03-05'' then Inr (mk_datetime 2018 3 5)
                       else if s = ''2018-03-05T00:00:00Z''
                         then Inr ((mk_datetime 2018 3 5)\<lparr>tzinfo := Some 0\<rparr>)
                       else Inl ValueError),
      sha1_hexdigest = (\<lambda>bs. ''sha1-'' @ map char_of bs),
      text_transform = (\<lambda>s. s),
      sent_tokenize = (\<lambda>s. [s]),
      table_parse = (\<lambda>s. [s]),
      json_load = (\<lambda>p.
        if p = ''data/a.json'' then
          Inr \<lparr>body_text = Some [(''Intro'', ''A study of sars-cov-2.'')],
               ref_entries = Some [(''TABREF0'', Some ''cases by region'')],
               bib_entries = Some [''Paper S'', ''Paper T'', ''Paper S'']\<rparr>
        else if p = ''data/b.json'' then
          Inr \<lparr>body_text = Some [([], ''COVID-19 spreads'')],
               ref_entries = Some [],
               bib_entries = Some [''Paper U'']\<rparr>
        else Inl OSError),
      grammar_parse = (\<lambda>ts. Inr ts),
      grammar_label = (\<lambda>t. Inr (Some ''LABEL'')),
      study_parse = (\<lambda>ss m. Inr (Some 1, None, None, None, map (\<lambda>x. None) ss)),
      metadata_csv = (\<lambda>p. if p = ''data/metadata.csv'' then ([rowA, rowB, rowC], None)
                          else ([], Some OSError)),
      entry_csv = (\<lambda>p. if p = ''data/entry-dates.csv''
                       then [(''h1'', ''2020-03-01''), (''sha1-Old flu'', ''2020-04-01''),
                             (''h0'', ''2020-01-15'')]
                       else []),
      home = ''/home/user''\<rparr>"

text \<open>
  The same input with row B before row A and an annotation service that raises; with a
  metadata file whose reading raises after row B; and with a metadata file of 102 rows.
\<close>

definition failing_env :: "string env" where
  "failing_env =
     sample_env\<lparr>grammar_parse := (\<lambda>ts. Inl (ServiceError ''no model'')),
                metadata_csv := (\<lambda>p. ([rowB, rowA], None))\<rparr>"

definition broken_env :: "string env" where
  "broken_env = sample_env\<lparr>metadata_csv := (\<lambda>p. ([rowB], Some ValueError))\<rparr>"

definition large_env :: "string env" where
  "large_env = sample_env\<lparr>metadata_csv := (\<lambda>p. (replicate 100 rowD @ [rowA, rowB], None))\<rparr>"

text \<open>An article and a state given directly, the entry dates and the results of the sample.\<close>

definition sample_article :: "string \<Rightarrow> string option \<Rightarrow> article" where
  "sample_article u t =
     \<lparr>metadata = \<lparr>m_id = Some u, m_source = Some ''PMC'', m_published = None,
        m_publication = Some ''J'', m_authors = Some ''A'', m_title = Some ''T'', m_tags = t,
        m_design = None, m_size = None, m_sample = None, m_method = None,
        m_reference = ''https://doi.org/x''\<rparr>,
      entry = None, sections = []\<rparr>"

definition sample_state :: state where
  "sample_state =
     \<lparr>db = \<lparr>location = ''db'', saved = [(sample_article ''u1'' None)\<lparr>entry := Some ''2020-03-01''\<rparr>],
             completed = None, closed = False\<rparr>,
      ids = {Some ''u1''}, hashes = {''h1''}, citations = Map.empty\<rparr>"

definition sample_dates :: "string \<rightharpoonup> string" where
  "sample_dates = entryDates sample_env ''data'' []"

definition sample_results :: "(exn + candidate) list" where
  "sample_results = map (process sample_env) (fst (stream sample_env ''data'' ''models''))"

section \<open>Properties of the string functions\<close>

declare split_from.simps [simp del]
declare findall_from.simps [simp del]
declare chunks.simps [simp del]

lemma split_from_nonempty: "split_from sep cur s \<noteq> []"
  by (induction sep cur s rule: split_from.induct) (subst split_from.simps, simp)

lemma split_from_first:
  assumes "sep \<noteq> []"
  shows "\<exists>p. hd (split_from sep cur s) = rev cur @ p \<and> prefix p s
           \<and> (p = s \<or> prefix (p @ sep) s)
           \<and> (\<forall>q. prefix (q @ sep) s \<longrightarrow> length p \<le> length q)"
  using assms
proof (induction sep cur s rule: split_from.induct)
  case (1 sp cur s)
  note ne = \<open>sp \<noteq> []\<close>
  show ?case
  proof (cases "s = []")
    case True
    then show ?thesis
      by (subst split_from.simps) simp
  next
    case False
    show ?thesis
    proof (cases "sp \<noteq> [] \<and> prefix sp s")
      case True
      have "hd (split_from sp cur s) = rev cur"
        using False True by (subst split_from.simps) simp
      with True show ?thesis by auto
    next
      case np: False
      then obtain c t where s: "s = c # t" using False by (cases s) auto
      from "1.IH"(2) [OF False np ne]
      obtain p where p: "hd (split_from sp (hd s # cur) (tl s)) = rev (hd s # cur) @ p"
        "prefix p (tl s)" "p = tl s \<or> prefix (p @ sp) (tl s)"
        "\<forall>q. prefix (q @ sp) (tl s) \<longrightarrow> length p \<le> length q"
        by blast
      have h: "hd (split_from sp cur s) = rev cur @ (c # p)"
        using False np p(1) s by (subst split_from.simps) simp
      have m: "\<forall>q. prefix (q @ sp) s \<longrightarrow> length (c # p) \<le> length q"
      proof (intro allI impI)
        fix q assume q: "prefix (q @ sp) s"
        show "length (c # p) \<le> length q"
        proof (cases q)
          case Nil
          with q np ne show ?thesis by simp
        next
          case (Cons x q')
          with q s have "prefix (q' @ sp) (tl s)" by simp
          with p(4) have "length p \<le> length q'" by blast
          with Cons show ?thesis by simp
        qed
      qed
      from h p(2,3) m s show ?thesis by auto
    qed
  qed
qed

lemma getitem_0: "xs \<noteq> [] \<Longrightarrow> getitem xs 0 = Inr (hd xs)"
  by (cases xs) (simp_all add: getitem_def)

lemma isdigit_ascii: "list_all ascii_digit s \<Longrightarrow> s \<noteq> [] \<Longrightarrow> isdigit s"
  unfolding isdigit_def list_all_iff
  by (simp add: isdigit_char_def ascii_digit_def)

lemma digits_value_four:
  assumes "list_all ascii_digit d" "length d = 4"
  shows "digits_value d \<le> 9999"
proof -
  from assms(2) obtain a b c e where d: "d = [a, b, c, e]"
    by (auto simp: length_Suc_conv numeral_eq_Suc)
  from assms(1) have "code a - 48 \<le> 9" "code b - 48 \<le> 9" "code c - 48 \<le> 9" "code e - 48 \<le> 9"
    by (auto simp: d ascii_digit_def)
  then show ?thesis
    by (simp add: d digits_value_def)
qed

lemma parser_parse_year:
  assumes "list_all ascii_digit d" "length d = 4"
  shows "parser_parse E (d @ ''-01-01'') = datetime_new (digits_value d) 1 1"
  using assms by (simp add: parser_parse_def)

lemma datetime_new_january:
  "1 \<le> y \<Longrightarrow> y \<le> 9999 \<Longrightarrow> datetime_new y 1 1 = Inr (mk_datetime y 1 1)"
  by (simp add: datetime_new_def days_in_month_def)

lemma contains_sublist: "contains x t \<longleftrightarrow> sublist x t"
  by (induction t) (auto simp: sublist_Cons_right)

section \<open>The identity hash\<close>

text \<open>
  Claim C8, as stated, fails: \<open>getHash\<close> does not return for every row. The row of a
  line that ends before the hash and title columns has \<^verbatim>\<open>None\<close> in both, and the
  fallback calls \<^verbatim>\<open>encode\<close> on \<^verbatim>\<open>None\<close>.
\<close>

theorem getHash_short_line_counterexample:
  "sha short_row = None \<and> title short_row = None
   \<and> getHash sample_env short_row = Inl AttributeError"
  by (simp add: short_row_def getHash_def title_digest_def bind_def truthy_def)

text \<open>
  Claim C8, amended. The first element of a supplied hash field, split at the delimiter
  \<^verbatim>\<open>"; "\<close>, is the part of the field before the first occurrence of the delimiter,
  and the whole field when the delimiter does not occur; the split list is never empty,
  so reading it does not raise. The hash of a row is that first element when the field
  and the element are not empty. Otherwise it is the SHA-1 digest of the UTF-8 bytes of
  the title when the row has a title column, the digest of the empty byte string for an
  empty title, and \<open>getHash\<close> raises \<^verbatim>\<open>AttributeError\<close> when the title column is
  missing.
\<close>

theorem getHash_supplied_or_title:
  "(split s ''; '' \<noteq> []
    \<and> prefix (hd (split s ''; '')) s
    \<and> (hd (split s ''; '') = s \<or> prefix (hd (split s ''; '') @ ''; '') s)
    \<and> (\<forall>q. prefix (q @ ''; '') s \<longrightarrow> length (hd (split s ''; '')) \<le> length q))
   \<and> (sha r = Some s \<and> s \<noteq> [] \<and> hd (split s ''; '') \<noteq> [] \<longrightarrow>
        getHash E r = Inr (hd (split s ''; '')))
   \<and> ((sha r = None \<or> sha r = Some [] \<or> (sha r = Some s \<and> hd (split s ''; '') = []))
        \<and> title r = Some t \<longrightarrow>
        getHash E r = Inr (sha1_hexdigest E (utf8 t)))
   \<and> ((sha r = None \<or> sha r = Some []) \<and> title r = Some [] \<longrightarrow>
        getHash E r = Inr (sha1_hexdigest E []))
   \<and> ((sha r = None \<or> sha r = Some [] \<or> (sha r = Some s \<and> hd (split s ''; '') = []))
        \<and> title r = None \<longrightarrow>
        getHash E r = Inl AttributeError)"
proof -
  have ne: "split s ''; '' \<noteq> []"
    by (simp add: split_def split_from_nonempty)
  have first: "prefix (hd (split s ''; '')) s
      \<and> (hd (split s ''; '') = s \<or> prefix (hd (split s ''; '') @ ''; '') s)
      \<and> (\<forall>q. prefix (q @ ''; '') s \<longrightarrow> length (hd (split s ''; '')) \<le> length q)"
    using split_from_first [of "''; ''" "[]" s] by (auto simp: split_def)
  have read: "getitem (split s ''; '') 0 = Inr (hd (split s ''; ''))"
    using ne by (rule getitem_0)
  have supplied: "sha r = Some s \<and> s \<noteq> [] \<and> hd (split s ''; '') \<noteq> [] \<longrightarrow>
        getHash E r = Inr (hd (split s ''; ''))"
    using read by (simp add: getHash_def bind_def truthy_def)
  have fallback: "sha r = None \<or> sha r = Some [] \<or> (sha r = Some s \<and> hd (split s ''; '') = [])
      \<Longrightarrow> getHash E r = title_digest E r"
    using read by (auto simp: getHash_def bind_def truthy_def)
  have t1: "(sha r = None \<or> sha r = Some [] \<or> (sha r = Some s \<and> hd (split s ''; '') = []))
        \<and> title r = Some t \<longrightarrow>
        getHash E r = Inr (sha1_hexdigest E (utf8 t))"
    using fallback by (auto simp: title_digest_def)
  have t2: "(sha r = None \<or> sha r = Some []) \<and> title r = Some [] \<longrightarrow>
        getHash E r = Inr (sha1_hexdigest E [])"
    using fallback by (auto simp: title_digest_def utf8_def)
  have t3: "(sha r = None \<or> sha r = Some [] \<or> (sha r = Some s \<and> hd (split s ''; '') = []))
        \<and> title r = None \<longrightarrow>
        getHash E r = Inl AttributeError"
    using fallback by (auto simp: title_digest_def)
  from ne first supplied t1 t2 t3 show ?thesis by blast
qed

theorem getHash_supplied_or_title_witness:
  "getHash sample_env rowA = Inr ''h1''
   \<and> getHash sample_env rowB = Inr (sha1_hexdigest sample_env (utf8 ''Old flu''))
   \<and> getHash sample_env rowD = Inr ''h0''
   \<and> getHash sample_env (rowB\<lparr>title := Some []\<rparr>) = Inr (sha1_hexdigest sample_env [])
   \<and> getHash sample_env short_row = Inl AttributeError"
proof -
  have a: "split ''h1; h1b'' ''; '' = [''h1'', ''h1b'']"
    by (simp add: split_def split_from.simps)
  have a': "sha rowA = Some ''h1; h1b'' \<and> ''h1; h1b'' \<noteq> [] \<and> hd (split ''h1; h1b'' ''; '') \<noteq> []"
    by (simp add: rowA_def a)
  have w1: "getHash sample_env rowA = Inr (hd (split ''h1; h1b'' ''; ''))"
    by (rule getHash_supplied_or_title [THEN conjunct2, THEN conjunct1, rule_format, OF a'])
  have d: "split ''h0'' ''; '' = [''h0'']"
    by (simp add: split_def split_from.simps)
  have d': "sha rowD = Some ''h0'' \<and> ''h0'' \<noteq> [] \<and> hd (split ''h0'' ''; '') \<noteq> []"
    by (simp add: rowD_def d)
  have w3: "getHash sample_env rowD = Inr (hd (split ''h0'' ''; ''))"
    by (rule getHash_supplied_or_title [THEN conjunct2, THEN conjunct1, rule_format, OF d'])
  have b: "(sha rowB = None \<or> sha rowB = Some [] \<or> (sha rowB = Some [] \<and> hd (split [] ''; '') = []))
      \<and> title rowB = Some ''Old flu''"
    by (simp add: rowB_def)
  have w2: "getHash sample_env rowB = Inr (sha1_hexdigest sample_env (utf8 ''Old flu''))"
    by (rule getHash_supplied_or_title [THEN conjunct2, THEN conjunct2, THEN conjunct1,
          rule_format, OF b])
  let ?e = "rowB\<lparr>title := Some []\<rparr>"
  have e: "(sha ?e = None \<or> sha ?e = Some []) \<and> title ?e = Some []"
    by (simp add: rowB_def)
  have w4: "getHash sample_env ?e = Inr (sha1_hexdigest sample_env [])"
    by (rule getHash_supplied_or_title [THEN conjunct2, THEN conjunct2, THEN conjunct2,
          THEN conjunct1, rule_format, OF e])
  have c: "(sha short_row = None \<or> sha short_row = Some []
        \<or> (sha short_row = Some [] \<and> hd (split [] ''; '') = []))
      \<and> title short_row = None"
    by (simp add: short_row_def)
  have w5: "getHash sample_env short_row = Inl AttributeError"
    by (rule getHash_supplied_or_title [THEN conjunct2, THEN conjunct2, THEN conjunct2,
          THEN conjunct2, rule_format, OF c])
  from w1 w2 w3 w4 w5 a d show ?thesis by simp
qed

section \<open>The publication date\<close>

text \<open>
  Claim C7, as stated, fails at the four digits \<^verbatim>\<open>0000\<close>: the parser is handed
  \<^verbatim>\<open>0000-01-01\<close>, \<^verbatim>\<open>datetime\<close> has no year 0, the parser raises and \<open>getDate\<close>
  returns no date instead of the first of January of that year.
\<close>

theorem getDate_year_zero_counterexample:
  "isdigit ''0000'' \<and> length ''0000'' = 4
   \<and> getDate sample_env (rowA\<lparr>publish_time := Some ''0000''\<rparr>) = Inr None"
  by code_simp

text \<open>
  Claim C7, amended. A missing or empty date string gives no date. A string of exactly
  four decimal digits other than \<^verbatim>\<open>0000\<close> gives the first of January of that year,
  and \<^verbatim>\<open>0000\<close> gives no date. In general a string of exactly four digits is handed to
  the parser with \<^verbatim>\<open>-01-01\<close> appended and every other string as it is; a failure of
  the parser gives no date, and \<open>getDate\<close> never raises.
\<close>

theorem getDate_resolves:
  "((publish_time r = None \<or> publish_time r = Some []) \<longrightarrow> getDate E r = Inr None)
   \<and> (publish_time r = Some d \<and> list_all ascii_digit d \<and> length d = 4 \<and> 1 \<le> digits_value d \<longrightarrow>
        getDate E r = Inr (Some (mk_datetime (digits_value d) 1 1)))
   \<and> (publish_time r = Some ''0000'' \<longrightarrow> getDate E r = Inr None)
   \<and> (publish_time r = Some d \<and> isdigit d \<and> length d = 4 \<longrightarrow>
        getDate E r =
          Inr (case parser_parse E (d @ ''-01-01'') of Inl e \<Rightarrow> None | Inr x \<Rightarrow> Some x))
   \<and> (publish_time r = Some d \<and> d \<noteq> [] \<and> \<not> (isdigit d \<and> length d = 4) \<longrightarrow>
        getDate E r =
          Inr (case parser_parse E d of Inl e \<Rightarrow> None | Inr x \<Rightarrow> Some x))
   \<and> (\<exists>v. getDate E r = Inr v)"
proof (intro conjI impI)
  assume "publish_time r = None \<or> publish_time r = Some []"
  then show "getDate E r = Inr None" by (auto simp: getDate_def)
next
  assume a: "publish_time r = Some d \<and> list_all ascii_digit d \<and> length d = 4 \<and> 1 \<le> digits_value d"
  then have ne: "d \<noteq> []" by auto
  with a have dig: "isdigit d" by (simp add: isdigit_ascii)
  from a have "digits_value d \<le> 9999" by (simp add: digits_value_four)
  with a have "datetime_new (digits_value d) 1 1 = Inr (mk_datetime (digits_value d) 1 1)"
    by (intro datetime_new_january) simp_all
  moreover from a have "parser_parse E (d @ ''-01-01'') = datetime_new (digits_value d) 1 1"
    by (intro parser_parse_year) simp_all
  ultimately have "parser_parse E (d @ ''-01-01'') = Inr (mk_datetime (digits_value d) 1 1)"
    by (simp only:)
  with a ne dig show "getDate E r = Inr (Some (mk_datetime (digits_value d) 1 1))"
    by (simp add: getDate_def)
next
  assume z: "publish_time r = Some ''0000''"
  have "isdigit ''0000''" by (simp add: isdigit_def isdigit_char_def code_def)
  moreover have "parser_parse E (''0000'' @ ''-01-01'') = Inl ValueError"
    by (simp add: parser_parse_def ascii_digit_def code_def digits_value_def datetime_new_def)
  ultimately show "getDate E r = Inr None"
    using z by (simp add: getDate_def)
next
  assume "publish_time r = Some d \<and> isdigit d \<and> length d = 4"
  then show "getDate E r =
          Inr (case parser_parse E (d @ ''-01-01'') of Inl e \<Rightarrow> None | Inr x \<Rightarrow> Some x)"
    by (auto simp: getDate_def split: sum.splits)
next
  assume "publish_time r = Some d \<and> d \<noteq> [] \<and> \<not> (isdigit d \<and> length d = 4)"
  then show "getDate E r =
          Inr (case parser_parse E d of Inl e \<Rightarrow> None | Inr x \<Rightarrow> Some x)"
    by (auto simp: getDate_def split: sum.splits)
next
  show "\<exists>v. getDate E r = Inr v"
    by (auto simp: getDate_def split: sum.splits option.splits)
qed

theorem getDate_resolves_witness:
  "getDate sample_env rowC = Inr None
   \<and> getDate sample_env short_row = Inr None
   \<and> getDate sample_env rowA = Inr (Some (mk_datetime 2020 1 1))
   \<and> getDate sample_env (rowA\<lparr>publish_time := Some ''0000''\<rparr>) = Inr None
   \<and> getDate sample_env rowB = Inr (Some (mk_datetime 2018 3 5))
   \<and> getDate sample_env (rowB\<lparr>publish_time := Some ''March''\<rparr>) = Inr None"
proof -
  have c: "publish_time rowC = None \<or> publish_time rowC = Some []"
    by (simp add: rowC_def)
  have w1: "getDate sample_env rowC = Inr None"
    by (rule getDate_resolves [THEN conjunct1, rule_format, OF c])
  have s: "publish_time short_row = None \<or> publish_time short_row = Some []"
    by (simp add: short_row_def)
  have w2: "getDate sample_env short_row = Inr None"
    by (rule getDate_resolves [THEN conjunct1, rule_format, OF s])
  have v: "digits_value ''2020'' = 2020"
    by (simp add: digits_value_def code_def)
  have a: "publish_time rowA = Some ''2020'' \<and> list_all ascii_digit ''2020'' \<and> length ''2020'' = 4
      \<and> 1 \<le> digits_value ''2020''"
    by (simp add: rowA_def v ascii_digit_def code_def)
  have w3: "getDate sample_env rowA = Inr (Some (mk_datetime (digits_value ''2020'') 1 1))"
    by (rule getDate_resolves [THEN conjunct2, THEN conjunct1, rule_format, OF a])
  let ?z = "rowA\<lparr>publish_time := Some ''0000''\<rparr>"
  have z: "publish_time ?z = Some ''0000''" by simp
  have w4: "getDate sample_env ?z = Inr None"
    by (rule getDate_resolves [THEN conjunct2, THEN conjunct2, THEN conjunct1, rule_format, OF z])
  have b: "publish_time rowB = Some ''2018-03-05'' \<and> ''2018-03-05'' \<noteq> []
      \<and> \<not> (isdigit ''2018-03-05'' \<and> length ''2018-03-05'' = 4)"
    by (simp add: rowB_def)
  have pb: "parser_parse sample_env ''2018-03-05'' = Inr (mk_datetime 2018 3 5)"
    by (simp add: parser_parse_def sample_env_def)
  have w5: "getDate sample_env rowB = Inr (Some (mk_datetime 2018 3 5))"
    using getDate_resolves [THEN conjunct2, THEN conjunct2, THEN conjunct2, THEN conjunct2,
        THEN conjunct1, rule_format, OF b, of sample_env] pb
    by simp
  let ?m = "rowB\<lparr>publish_time := Some ''March''\<rparr>"
  have m: "publish_time ?m = Some ''March'' \<and> ''March'' \<noteq> []
      \<and> \<not> (isdigit ''March'' \<and> length ''March'' = 4)"
    by simp
  have pm: "parser_parse sample_env ''March'' = Inl ValueError"
    by (simp add: parser_parse_def sample_env_def)
  have w6: "getDate sample_env ?m = Inr None"
    using getDate_resolves [THEN conjunct2, THEN conjunct2, THEN conjunct2, THEN conjunct2,
        THEN conjunct1, rule_format, OF m, of sample_env] pm
    by simp
  from w1 w2 w3 w4 w5 w6 v show ?thesis by simp
qed

section \<open>The filter of sections\<close>

lemma filtered_loop_append:
  "filtered_loop (xs @ ys) acc = filtered_loop ys (filtered_loop xs acc)"
  by (induction xs acc rule: filtered_loop.induct) auto

lemma filtered_loop_unique:
  "fst (filtered_loop xs (u, k)) = u @ fst (filtered_loop xs ([], k))"
proof (induction xs arbitrary: u k)
  case Nil
  then show ?case by simp
next
  case (Cons x xs)
  obtain n t where x: "x = (n, t)" by (cases x)
  show ?case
    using Cons.IH [of "u @ [(n, t)]" "insert t k"] Cons.IH [of "[(n, t)]" "insert t k"]
      Cons.IH [of u k]
    by (simp add: x)
qed

lemma filtered_loop_keys:
  "snd (filtered_loop xs (u, k)) = k \<union> {t \<in> snd ` set xs. \<not> is_boilerplate t}"
proof (induction xs arbitrary: u k)
  case Nil
  then show ?case by simp
next
  case (Cons x xs)
  obtain n t where x: "x = (n, t)" by (cases x)
  show ?case
    using Cons.IH [of u k] Cons.IH [of "u @ [(n, t)]" "insert t k"]
    by (auto simp: x)
qed

lemma filtered_loop_subseq: "subseq (fst (filtered_loop xs ([], k))) xs"
proof (induction xs arbitrary: k)
  case Nil
  then show ?case by simp
next
  case (Cons x xs)
  obtain n t where x: "x = (n, t)" by (cases x)
  show ?case
    using Cons.IH [of k] Cons.IH [of "insert t k"] filtered_loop_unique [of xs "[(n, t)]" "insert t k"]
    by (auto simp: x)
qed

lemma filtered_loop_texts:
  "snd ` set (fst (filtered_loop xs ([], k))) = {t \<in> snd ` set xs. \<not> is_boilerplate t \<and> t \<notin> k}"
proof (induction xs arbitrary: k)
  case Nil
  then show ?case by simp
next
  case (Cons x xs)
  obtain n t where x: "x = (n, t)" by (cases x)
  show ?case
    using Cons.IH [of k] Cons.IH [of "insert t k"] filtered_loop_unique [of xs "[(n, t)]" "insert t k"]
    by (auto simp: x image_iff)
qed

lemma filtered_loop_distinct: "distinct (map snd (fst (filtered_loop xs ([], k))))"
proof (induction xs arbitrary: k)
  case Nil
  then show ?case by simp
next
  case (Cons x xs)
  obtain n t where x: "x = (n, t)" by (cases x)
  show ?case
    using Cons.IH [of k] Cons.IH [of "insert t k"] filtered_loop_unique [of xs "[(n, t)]" "insert t k"]
      filtered_loop_texts [of xs "insert t k"]
    by (auto simp: x)
qed

text \<open>
  Claim C5. A section whose text equals the text of an earlier section, or contains one
  of the boilerplate fragments as a substring, is dropped: the result is the one for the
  list without that section. A section with a new text and no fragment is kept, right
  after what is kept of the sections before it. The result is a subsequence of the
  input, with no text twice and no boilerplate, and the citation titles come back as
  the same set of titles, each once.
\<close>

theorem filtered_first_wins:
  "(t \<in> snd ` set pre \<or> is_boilerplate t \<longrightarrow>
      fst (filtered (pre @ (n, t) # post) cs) = fst (filtered (pre @ post) cs))
   \<and> (t \<notin> snd ` set pre \<and> \<not> is_boilerplate t \<longrightarrow>
      (\<exists>rest. fst (filtered (pre @ (n, t) # post) cs) = fst (filtered pre cs) @ (n, t) # rest))
   \<and> subseq (fst (filtered ss cs)) ss
   \<and> distinct (map snd (fst (filtered ss cs)))
   \<and> (\<forall>s \<in> set (fst (filtered ss cs)). \<not> is_boilerplate (snd s))
   \<and> is_boilerplate t = (\<exists>x \<in> set boilerplate. sublist x t)
   \<and> set (snd (filtered ss cs)) = set cs \<and> distinct (snd (filtered ss cs))"
proof (intro conjI impI)
  obtain u k where pre: "filtered_loop pre ([], {}) = (u, k)"
    by (cases "filtered_loop pre ([], {})")
  have k: "k = {t \<in> snd ` set pre. \<not> is_boilerplate t}"
    using filtered_loop_keys [of pre "[]" "{}"] pre by simp
  {
    assume "t \<in> snd ` set pre \<or> is_boilerplate t"
    then have "t \<in> k \<or> is_boilerplate t" using k by auto
    then have "filtered_loop ((n, t) # post) (u, k) = filtered_loop post (u, k)" by auto
    then show "fst (filtered (pre @ (n, t) # post) cs) = fst (filtered (pre @ post) cs)"
      by (simp add: filtered_def filtered_loop_append pre)
  }
  {
    assume "t \<notin> snd ` set pre \<and> \<not> is_boilerplate t"
    then have "t \<notin> k \<and> \<not> is_boilerplate t" using k by auto
    then have "filtered_loop ((n, t) # post) (u, k) = filtered_loop post (u @ [(n, t)], insert t k)"
      by auto
    then have "fst (filtered (pre @ (n, t) # post) cs)
        = (u @ [(n, t)]) @ fst (filtered_loop post ([], insert t k))"
      using filtered_loop_unique [of post "u @ [(n, t)]" "insert t k"]
      by (simp add: filtered_def filtered_loop_append pre)
    then show "\<exists>rest. fst (filtered (pre @ (n, t) # post) cs) = fst (filtered pre cs) @ (n, t) # rest"
      by (simp add: filtered_def pre)
  }
  show "subseq (fst (filtered ss cs)) ss"
    by (simp add: filtered_def filtered_loop_subseq)
  show "distinct (map snd (fst (filtered ss cs)))"
    by (simp add: filtered_def filtered_loop_distinct)
  show "\<forall>s \<in> set (fst (filtered ss cs)). \<not> is_boilerplate (snd s)"
    using filtered_loop_texts [of ss "{}"] by (auto simp: filtered_def)
  show "is_boilerplate t = (\<exists>x \<in> set boilerplate. sublist x t)"
    by (simp add: is_boilerplate_def list_ex_iff contains_sublist)
  show "set (snd (filtered ss cs)) = set cs" by (simp add: filtered_def)
  show "distinct (snd (filtered ss cs))" by (simp add: filtered_def)
qed

theorem filtered_first_wins_witness:
  "fst (filtered ([(Some ''A'', ''x''), (None, ''see the WHO COVID database here'')]
          @ (Some ''C'', ''x'') # [(Some ''B'', ''y'')]) [''p'', ''q'', ''p''])
     = fst (filtered ([(Some ''A'', ''x''), (None, ''see the WHO COVID database here'')]
          @ [(Some ''B'', ''y'')]) [''p'', ''q'', ''p''])
   \<and> fst (filtered ([(Some ''A'', ''x''), (None, ''see the WHO COVID database here'')]
          @ [(Some ''B'', ''y'')]) [''p'', ''q'', ''p''])
     = [(Some ''A'', ''x''), (Some ''B'', ''y'')]
   \<and> is_boilerplate ''see the WHO COVID database here''
   \<and> (Some ''D'', ''z'')
       \<in> set (fst (filtered ([(Some ''A'', ''x''), (None, ''see the WHO COVID database here'')]
                 @ (Some ''D'', ''z'') # [(Some ''B'', ''y'')]) [''p'', ''q'', ''p'']))
   \<and> set (snd (filtered [(Some ''A'', ''x'')] [''p'', ''q'', ''p''])) = {''p'', ''q''}"
proof -
  let ?pre = "[(Some ''A'', ''x''), (None, ''see the WHO COVID database here'')]"
  let ?post = "[(Some ''B'', ''y'')]"
  let ?cs = "[''p'', ''q'', ''p'']"
  have dup: "''x'' \<in> snd ` set ?pre \<or> is_boilerplate ''x''"
    by simp
  have new: "''z'' \<notin> snd ` set ?pre \<and> \<not> is_boilerplate ''z''"
    by (simp add: is_boilerplate_def boilerplate_def)
  have val: "fst (filtered (?pre @ ?post) ?cs) = [(Some ''A'', ''x''), (Some ''B'', ''y'')]"
    by (simp add: filtered_def is_boilerplate_def boilerplate_def)
  have bp: "is_boilerplate ''see the WHO COVID database here''"
    by (simp add: is_boilerplate_def boilerplate_def)
  have w1: "fst (filtered (?pre @ (Some ''C'', ''x'') # ?post) ?cs)
      = fst (filtered (?pre @ ?post) ?cs)"
    by (rule filtered_first_wins [THEN conjunct1, rule_format, OF dup])
  have "\<exists>rest. fst (filtered (?pre @ (Some ''D'', ''z'') # ?post) ?cs)
      = fst (filtered ?pre ?cs) @ (Some ''D'', ''z'') # rest"
    by (rule filtered_first_wins [THEN conjunct2, THEN conjunct1, rule_format, OF new])
  then have w2: "(Some ''D'', ''z'') \<in> set (fst (filtered (?pre @ (Some ''D'', ''z'') # ?post) ?cs))"
    by auto
  have w3: "set (snd (filtered [(Some ''A'', ''x'')] ?cs)) = {''p'', ''q''}"
    using filtered_first_wins [of "''x''" ?pre "Some ''C''" ?post ?cs "[(Some ''A'', ''x'')]"]
    by auto
  from w1 val bp w2 w3 show ?thesis by blast
qed

section \<open>The tags of a row\<close>

lemma getTags_match:
  "getTags secs = (if list_ex (\<lambda>s. findall keyword_regex (lower (snd s)) \<noteq> []) secs
                   then Some ''COVID-19'' else None)"
  by (induction secs rule: getTags.induct) auto

lemma process_Inr_parts:
  assumes "process E (r, indir, models) = Inr (h, a, cite)"
  shows "\<exists>date tag. getDate E r = Inr date
           \<and> process_tags date (fst (fst (parse E r indir))) = Inr tag
           \<and> tags a = tag
           \<and> cite = (if truthy tag then Some (snd (fst (parse E r indir))) else None)"
proof -
  obtain h' where h': "getHash E r = Inr h'"
    using assms by (cases "getHash E r") (simp_all add: process_def bind_def)
  obtain date where date: "getDate E r = Inr date"
    using assms h' by (cases "getDate E r") (simp_all add: process_def bind_def)
  obtain s0 c0 where p: "fst (parse E r indir) = (s0, c0)"
    by (cases "fst (parse E r indir)")
  obtain tag where tag: "process_tags date s0 = Inr tag"
    using assms h' date p by (cases "process_tags date s0") (simp_all add: process_def bind_def)
  have "tags a = tag \<and> cite = (if truthy tag then Some c0 else None)"
    using assms h' date p tag
    by (auto simp: process_def bind_def tags_def split: sum.splits prod.splits if_splits)
  with date p tag show ?thesis by simp
qed

text \<open>
  Claim C6, as stated, fails for a date with a time zone: the comparison with the naive
  cutoff raises \<^verbatim>\<open>TypeError\<close>, so neither none nor the tag is returned. Row Z is dated
  5 March 2018 in UTC; its companion file names the disease.
\<close>

theorem process_tags_zoned_counterexample:
  "getDate sample_env rowZ = Inr (Some ((mk_datetime 2018 3 5)\<lparr>tzinfo := Some 0\<rparr>))
   \<and> datetime_less ((mk_datetime 2018 3 5)\<lparr>tzinfo := Some 0\<rparr>) cutoff
   \<and> process_tags (Some ((mk_datetime 2018 3 5)\<lparr>tzinfo := Some 0\<rparr>))
        (fst (fst (parse sample_env rowZ ''data''))) = Inl TypeError
   \<and> process sample_env (rowZ, ''data'', ''models'') = Inl TypeError"
  by code_simp

text \<open>
  Claim C6, amended. For a date without time zone that is before 1 July 2019 the tags
  are \<open>None\<close>, whatever the sections say. For an unknown date, and for a date without
  time zone on or after that day, a section whose lower-cased text matches a keyword
  gives the tag \<^verbatim>\<open>COVID-19\<close>, wherever the section stands; the loop of \<open>getTags\<close>
  returns at a matching section without looking at the sections after it. For a date
  with a time zone the comparison raises \<^verbatim>\<open>TypeError\<close>. The tags of the article that
  \<open>process\<close> returns are computed this way from the date and the sections of the row.
\<close>

theorem process_tags_cutoff:
  "(tzinfo d = None \<and> datetime_less d cutoff \<longrightarrow> process_tags (Some d) secs = Inr None)
   \<and> ((date = None \<or> (\<exists>d'. date = Some d' \<and> tzinfo d' = None \<and> \<not> datetime_less d' cutoff))
        \<and> findall keyword_regex (lower t) \<noteq> [] \<longrightarrow>
        process_tags date (pre @ (n, t) # post) = Inr (Some ''COVID-19''))
   \<and> (findall keyword_regex (lower t) \<noteq> [] \<longrightarrow> getTags ((n, t) # post) = Some ''COVID-19'')
   \<and> (tzinfo d \<noteq> None \<longrightarrow> process_tags (Some d) secs = Inl TypeError)
   \<and> (process E (r, indir, models) = Inr (h, a, cite) \<longrightarrow>
        (\<exists>date'. getDate E r = Inr date'
           \<and> process_tags date' (fst (fst (parse E r indir))) = Inr (tags a)))"
proof (intro conjI impI)
  assume "tzinfo d = None \<and> datetime_less d cutoff"
  then show "process_tags (Some d) secs = Inr None"
    by (simp add: process_tags_def datetime_ge_naive_def bind_def)
next
  assume a: "(date = None \<or> (\<exists>d'. date = Some d' \<and> tzinfo d' = None \<and> \<not> datetime_less d' cutoff))
        \<and> findall keyword_regex (lower t) \<noteq> []"
  then have "getTags (pre @ (n, t) # post) = Some ''COVID-19''"
    by (simp add: getTags_match)
  with a show "process_tags date (pre @ (n, t) # post) = Inr (Some ''COVID-19'')"
    by (auto simp: process_tags_def datetime_ge_naive_def bind_def)
next
  assume "findall keyword_regex (lower t) \<noteq> []"
  then show "getTags ((n, t) # post) = Some ''COVID-19''" by simp
next
  assume "tzinfo d \<noteq> None"
  then show "process_tags (Some d) secs = Inl TypeError"
    by (auto simp: process_tags_def datetime_ge_naive_def bind_def)
next
  assume "process E (r, indir, models) = Inr (h, a, cite)"
  then show "\<exists>date'. getDate E r = Inr date'
           \<and> process_tags date' (fst (fst (parse E r indir))) = Inr (tags a)"
    using process_Inr_parts by blast
qed

theorem process_tags_cutoff_witness:
  "process_tags (Some (mk_datetime 2018 3 5)) [(None, ''COVID-19 spreads'')] = Inr None
   \<and> findall keyword_regex (lower ''COVID-19 spreads'') \<noteq> []
   \<and> process_tags None ([(Some ''TITLE'', ''Old flu'')] @ (None, ''COVID-19 spreads'') # [(None, ''x'')])
       = Inr (Some ''COVID-19'')
   \<and> process_tags (Some (mk_datetime 2019 7 1))
        ([(Some ''TITLE'', ''Old flu'')] @ (None, ''COVID-19 spreads'') # [(None, ''x'')])
       = Inr (Some ''COVID-19'')
   \<and> process_tags (Some ((mk_datetime 2020 1 1)\<lparr>tzinfo := Some 3600\<rparr>)) [] = Inl TypeError
   \<and> (\<exists>h a cite. process sample_env (rowB, ''data'', ''models'') = Inr (h, a, cite) \<and> tags a = None)"
proof -
  let ?pre = "[(Some ''TITLE'', ''Old flu'')]"
  let ?post = "[(None, ''x'')]"
  have old: "tzinfo (mk_datetime 2018 3 5) = None \<and> datetime_less (mk_datetime 2018 3 5) cutoff"
    by (simp add: datetime_less_def cutoff_def mk_datetime_def dt_fields_def)
  have w1: "process_tags (Some (mk_datetime 2018 3 5)) [(None, ''COVID-19 spreads'')] = Inr None"
    by (rule process_tags_cutoff [THEN conjunct1, rule_format, OF old])
  have m: "findall keyword_regex (lower ''COVID-19 spreads'') \<noteq> []"
    by code_simp
  have unknown: "((None :: datetime option) = None
        \<or> (\<exists>d'. None = Some d' \<and> tzinfo d' = None \<and> \<not> datetime_less d' cutoff))
      \<and> findall keyword_regex (lower ''COVID-19 spreads'') \<noteq> []"
    using m by simp
  have w2: "process_tags None (?pre @ (None, ''COVID-19 spreads'') # ?post) = Inr (Some ''COVID-19'')"
    by (rule process_tags_cutoff [THEN conjunct2, THEN conjunct1, rule_format, OF unknown])
  have "tzinfo (mk_datetime 2019 7 1) = None \<and> \<not> datetime_less (mk_datetime 2019 7 1) cutoff"
    by (simp add: datetime_less_def cutoff_def mk_datetime_def dt_fields_def)
  then have recent: "(Some (mk_datetime 2019 7 1) = None
        \<or> (\<exists>d'. Some (mk_datetime 2019 7 1) = Some d' \<and> tzinfo d' = None
              \<and> \<not> datetime_less d' cutoff))
      \<and> findall keyword_regex (lower ''COVID-19 spreads'') \<noteq> []"
    using m by simp
  have w3: "process_tags (Some (mk_datetime 2019 7 1)) (?pre @ (None, ''COVID-19 spreads'') # ?post)
      = Inr (Some ''COVID-19'')"
    by (rule process_tags_cutoff [THEN conjunct2, THEN conjunct1, rule_format, OF recent])
  have zoned: "tzinfo ((mk_datetime 2020 1 1)\<lparr>tzinfo := Some 3600\<rparr>) \<noteq> None"
    by simp
  have w4: "process_tags (Some ((mk_datetime 2020 1 1)\<lparr>tzinfo := Some 3600\<rparr>)) [] = Inl TypeError"
    by (rule process_tags_cutoff [THEN conjunct2, THEN conjunct2, THEN conjunct2, THEN conjunct1,
          rule_format, OF zoned])
  have p: "case process sample_env (rowB, ''data'', ''models'') of
             Inl e \<Rightarrow> False
           | Inr (h, a, cite) \<Rightarrow> tags a = None"
    by code_simp
  then obtain h a cite where
    q: "process sample_env (rowB, ''data'', ''models'') = Inr (h, a, cite)" "tags a = None"
    by (auto split: sum.splits)
  from w1 m w2 w3 w4 q show ?thesis by blast
qed

section \<open>The loop of the run\<close>

lemma consume_reject:
  "\<not> fresh full st c \<Longrightarrow> consume dates full st c = Inr (st, fst (snd c))"
  by (cases c) (auto simp: consume_def fresh_def Let_def)

lemma consume_raise:
  "fresh full st c \<Longrightarrow> dates (fst c) = None \<Longrightarrow> consume dates full st c = Inl KeyError"
  by (cases c) (auto simp: consume_def fresh_def Let_def)

lemma consume_accept:
  "fresh full st c \<Longrightarrow> dates (fst c) = Some d \<Longrightarrow>
   consume dates full st c =
     Inr (st\<lparr>citations := counter_update (citations st) (snd (snd c)),
             db := (db st)\<lparr>saved := saved (db st) @ [(fst (snd c))\<lparr>entry := Some d\<rparr>]\<rparr>,
             ids := insert (uid (fst (snd c))) (ids st),
             hashes := insert (fst c) (hashes st)\<rparr>,
          (fst (snd c))\<lparr>entry := Some d\<rparr>)"
  by (cases c) (auto simp: consume_def fresh_def Let_def)

lemma run_loop_reject:
  "\<not> fresh full st c \<Longrightarrow> run_loop dates full st (Inr c # rs) = run_loop dates full st rs"
  by (simp add: consume_reject)

lemma accepted_reject:
  "\<not> fresh full st c \<Longrightarrow> accepted dates full st (Inr c # rs) = accepted dates full st rs"
  by (simp add: consume_reject)

lemma run_loop_raise:
  "fresh full st c \<Longrightarrow> dates (fst c) = None \<Longrightarrow>
   run_loop dates full st (Inr c # rs) = (Some KeyError, st)"
  by (simp add: consume_raise)

lemma accepted_raise:
  "fresh full st c \<Longrightarrow> dates (fst c) = None \<Longrightarrow> accepted dates full st (Inr c # rs) = []"
  by (simp add: consume_raise)

lemma run_loop_accept:
  "fresh full st c \<Longrightarrow> dates (fst c) = Some d \<Longrightarrow>
   run_loop dates full st (Inr c # rs) = run_loop dates full (step st c d) rs"
  by (simp add: consume_accept step_def)

lemma accepted_accept:
  "fresh full st c \<Longrightarrow> dates (fst c) = Some d \<Longrightarrow>
   accepted dates full st (Inr c # rs) = c # accepted dates full (step st c d) rs"
  by (simp add: consume_accept step_def)

lemma step_simps:
  "ids (step st c d) = insert (uid (fst (snd c))) (ids st)"
  "hashes (step st c d) = insert (fst c) (hashes st)"
  "saved (db (step st c d)) = saved (db st) @ [(fst (snd c))\<lparr>entry := Some d\<rparr>]"
  "citations (step st c d) = counter_update (citations st) (snd (snd c))"
  by (simp_all add: step_def)

lemma run_loop_trace:
  "run_loop dates full st results = (e, fin) \<Longrightarrow>
   trace_ok dates st fin (accepted dates full st results)"
proof (induction results arbitrary: st)
  case Nil
  then show ?case by (simp add: trace_ok_def)
next
  case (Cons x rs)
  show ?case
  proof (cases x)
    case (Inl ex)
    with Cons.prems show ?thesis by (simp add: trace_ok_def)
  next
    case (Inr c)
    show ?thesis
    proof (cases "fresh full st c")
      case False
      then have "run_loop dates full st rs = (e, fin)"
        using Cons.prems Inr by (simp add: consume_reject)
      then have "trace_ok dates st fin (accepted dates full st rs)"
        by (rule Cons.IH)
      then show ?thesis
        using False Inr by (simp add: consume_reject)
    next
      case True
      show ?thesis
      proof (cases "dates (fst c)")
        case None
        with True Cons.prems Inr show ?thesis
          by (simp add: consume_raise trace_ok_def)
      next
        case (Some d)
        from True Some Cons.prems Inr
        have "run_loop dates full (step st c d) rs = (e, fin)"
          by (simp add: consume_accept step_def)
        then have ih: "trace_ok dates (step st c d) fin (accepted dates full (step st c d) rs)"
          by (rule Cons.IH)
        have acc: "accepted dates full st (x # rs) = c # accepted dates full (step st c d) rs"
          using True Some Inr by (simp add: consume_accept step_def)
        from True have f: "uid (fst (snd c)) \<notin> ids st" "fst c \<notin> hashes st"
          by (simp_all add: fresh_def)
        show ?thesis
          unfolding acc using ih f Some
          by (auto simp: trace_ok_def step_simps)
      qed
    qed
  qed
qed

lemma dom_counter_update:
  "dom (counter_update m cite) = dom m \<union> (case cite of None \<Rightarrow> {} | Some ts \<Rightarrow> set ts)"
proof (cases cite)
  case None
  then show ?thesis by (simp add: counter_update_def)
next
  case (Some ts)
  have "dom (fold (\<lambda>x m. m(x \<mapsto> (case m x of None \<Rightarrow> 0 | Some n \<Rightarrow> n) + 1)) ts m) = dom m \<union> set ts"
    by (induction ts arbitrary: m) auto
  with Some show ?thesis by (simp add: counter_update_def)
qed

lemma dom_fold_counter:
  "dom (fold (\<lambda>c m. counter_update m (snd (snd c))) acc m)
     = dom m \<union> {t. \<exists>c \<in> set acc. \<exists>ts. snd (snd c) = Some ts \<and> t \<in> set ts}"
proof (induction acc arbitrary: m)
  case Nil
  then show ?case by simp
next
  case (Cons c acc)
  show ?case
    by (cases "snd (snd c)") (auto simp: Cons.IH dom_counter_update)
qed

text \<open>
  Claim C1. When the loop accepts a candidate (the list of saved articles grows), its
  unique id and its hash were in neither set before and both are in their sets after. A
  candidate whose unique id or whose hash is already in its set leaves the state, and so
  the articles saved earlier, as they were. For a whole run from the initial state: the
  accepted candidates have pairwise different unique ids and pairwise different hashes,
  the two sets are exactly their ids and hashes, and the saved articles are theirs, in
  order.
\<close>

theorem run_dedup:
  "(consume dates full st (h, a, cite) = Inr (st', a') \<and> saved (db st') \<noteq> saved (db st) \<longrightarrow>
      uid a \<notin> ids st \<and> h \<notin> hashes st
      \<and> ids st' = insert (uid a) (ids st) \<and> hashes st' = insert h (hashes st))
   \<and> (uid a \<in> ids st \<or> h \<in> hashes st \<longrightarrow> consume dates full st (h, a, cite) = Inr (st, a))
   \<and> (run_loop dates full (initial u) results = (e, fin) \<longrightarrow>
        distinct (map (\<lambda>c. uid (fst (snd c))) (accepted dates full (initial u) results))
        \<and> distinct (map fst (accepted dates full (initial u) results))
        \<and> ids fin = set (map (\<lambda>c. uid (fst (snd c))) (accepted dates full (initial u) results))
        \<and> hashes fin = set (map fst (accepted dates full (initial u) results))
        \<and> map uid (saved (db fin))
            = map (\<lambda>c. uid (fst (snd c))) (accepted dates full (initial u) results))"
proof (intro conjI impI)
  assume a: "consume dates full st (h, a, cite) = Inr (st', a') \<and> saved (db st') \<noteq> saved (db st)"
  then have f: "fresh full st (h, a, cite)"
    using consume_reject [of full st "(h, a, cite)" dates] by auto
  with a obtain d where d: "dates h = Some d"
    using consume_raise [of full st "(h, a, cite)" dates] by (cases "dates h") auto
  from f show "uid a \<notin> ids st" "h \<notin> hashes st"
    by (simp_all add: fresh_def)
  from a f d show "ids st' = insert (uid a) (ids st)" "hashes st' = insert h (hashes st)"
    using consume_accept [of full st "(h, a, cite)" dates d] by auto
next
  assume "uid a \<in> ids st \<or> h \<in> hashes st"
  then have "\<not> fresh full st (h, a, cite)" by (auto simp: fresh_def)
  then show "consume dates full st (h, a, cite) = Inr (st, a)"
    using consume_reject [of full st "(h, a, cite)" dates] by simp
next
  assume "run_loop dates full (initial u) results = (e, fin)"
  then have t: "trace_ok dates (initial u) fin (accepted dates full (initial u) results)"
    by (rule run_loop_trace)
  from t show "distinct (map (\<lambda>c. uid (fst (snd c))) (accepted dates full (initial u) results))"
    by (simp add: trace_ok_def)
  from t show "distinct (map fst (accepted dates full (initial u) results))"
    by (simp add: trace_ok_def)
  from t show "ids fin = set (map (\<lambda>c. uid (fst (snd c))) (accepted dates full (initial u) results))"
    by (simp add: trace_ok_def initial_def)
  from t show "hashes fin = set (map fst (accepted dates full (initial u) results))"
    by (simp add: trace_ok_def initial_def)
  from t show "map uid (saved (db fin))
            = map (\<lambda>c. uid (fst (snd c))) (accepted dates full (initial u) results)"
    by (simp add: trace_ok_def initial_def uid_def comp_def)
qed

theorem run_dedup_witness:
  "consume sample_dates True sample_state (''h1'', sample_article ''u9'' None, None)
     = Inr (sample_state, sample_article ''u9'' None)
   \<and> consume sample_dates True sample_state (''h9'', sample_article ''u1'' None, None)
     = Inr (sample_state, sample_article ''u1'' None)
   \<and> ids (fst (projr (consume sample_dates True (initial ''db'')
            (''h1'', sample_article ''u1'' None, None)))) = {Some ''u1''}
   \<and> hashes (fst (projr (consume sample_dates True (initial ''db'')
            (''h1'', sample_article ''u1'' None, None)))) = {''h1''}
   \<and> map uid (saved (db (snd (run_loop sample_dates True (initial ''db'') sample_results))))
      = [Some ''u1'', Some ''u2'']
   \<and> ids (snd (run_loop sample_dates True (initial ''db'') sample_results)) = {Some ''u1'', Some ''u2''}
   \<and> hashes (snd (run_loop sample_dates True (initial ''db'') sample_results))
      = {''h1'', ''sha1-Old flu''}"
proof -
  let ?a = "sample_article ''u1'' None"
  have d: "sample_dates ''h1'' = Some ''2020-03-01''"
    by code_simp
  have r1: "uid (sample_article ''u9'' None) \<in> ids sample_state \<or> ''h1'' \<in> hashes sample_state"
    by (simp add: sample_state_def)
  have r2: "uid ?a \<in> ids sample_state \<or> ''h9'' \<in> hashes sample_state"
    by (simp add: sample_state_def sample_article_def uid_def)
  have w1: "consume sample_dates True sample_state (''h1'', sample_article ''u9'' None, None)
     = Inr (sample_state, sample_article ''u9'' None)"
    by (rule run_dedup [THEN conjunct2, THEN conjunct1, rule_format, OF r1])
  have w2: "consume sample_dates True sample_state (''h9'', ?a, None) = Inr (sample_state, ?a)"
    by (rule run_dedup [THEN conjunct2, THEN conjunct1, rule_format, OF r2])
  obtain st' a' where c: "consume sample_dates True (initial ''db'') (''h1'', ?a, None) = Inr (st', a')"
    using d by (simp add: consume_def initial_def Let_def)
  have g: "saved (db st') \<noteq> saved (db (initial ''db''))"
    using c d by (auto simp: consume_def initial_def Let_def)
  have "ids st' = insert (uid ?a) (ids (initial ''db''))
      \<and> hashes st' = insert ''h1'' (hashes (initial ''db''))"
    using run_dedup [THEN conjunct1, rule_format, OF conjI, OF c g] by simp
  then have w3: "ids st' = {Some ''u1''}" "hashes st' = {''h1''}"
    by (simp_all add: initial_def uid_def sample_article_def)
  have acc: "map (\<lambda>c. uid (fst (snd c))) (accepted sample_dates True (initial ''db'') sample_results)
      = [Some ''u1'', Some ''u2'']"
    by code_simp
  have acch: "map fst (accepted sample_dates True (initial ''db'') sample_results)
      = [''h1'', ''sha1-Old flu'']"
    by code_simp
  obtain e fin where rl: "run_loop sample_dates True (initial ''db'') sample_results = (e, fin)"
    by (cases "run_loop sample_dates True (initial ''db'') sample_results")
  have w5: "map uid (saved (db fin)) = [Some ''u1'', Some ''u2'']" "ids fin = {Some ''u1'', Some ''u2''}"
    "hashes fin = {''h1'', ''sha1-Old flu''}"
    using run_dedup [THEN conjunct2, THEN conjunct2, rule_format, OF rl] acc acch
    by auto
  show ?thesis
    using w1 w2 w3 w5 by (simp add: c rl)
qed

text \<open>
  Claim C10. A candidate that is rejected, because its unique id or its hash was accepted
  before or because it has no tags and the load is not full, changes nothing: the body
  of the loop returns the state and the article as they were (no entry date, no call of
  \<^verbatim>\<open>save\<close>, the two sets and the counter untouched), and the loop goes on as if the
  candidate had not been there.
\<close>

theorem rejected_unchanged:
  "uid a \<in> ids st \<or> h \<in> hashes st \<or> (\<not> full \<and> \<not> truthy (tags a)) \<longrightarrow>
     consume dates full st (h, a, cite) = Inr (st, a)
     \<and> run_loop dates full st (Inr (h, a, cite) # rest) = run_loop dates full st rest
     \<and> accepted dates full st (Inr (h, a, cite) # rest) = accepted dates full st rest"
proof
  assume "uid a \<in> ids st \<or> h \<in> hashes st \<or> (\<not> full \<and> \<not> truthy (tags a))"
  then have "\<not> fresh full st (h, a, cite)" by (auto simp: fresh_def)
  then have "consume dates full st (h, a, cite) = Inr (st, a)"
    using consume_reject [of full st "(h, a, cite)" dates] by simp
  then show "consume dates full st (h, a, cite) = Inr (st, a)
     \<and> run_loop dates full st (Inr (h, a, cite) # rest) = run_loop dates full st rest
     \<and> accepted dates full st (Inr (h, a, cite) # rest) = accepted dates full st rest"
    by simp
qed

theorem rejected_unchanged_witness:
  "consume sample_dates True sample_state (''h1'', sample_article ''u9'' None, Some [''Paper X''])
     = Inr (sample_state, sample_article ''u9'' None)
   \<and> consume sample_dates False (initial ''db'') (''h9'', sample_article ''u9'' None, None)
     = Inr (initial ''db'', sample_article ''u9'' None)
   \<and> run_loop sample_dates True sample_state
        [Inr (''h9'', sample_article ''u1'' None, Some [''Paper X''])] = (None, sample_state)"
proof -
  have r1: "uid (sample_article ''u9'' None) \<in> ids sample_state \<or> ''h1'' \<in> hashes sample_state
      \<or> (\<not> True \<and> \<not> truthy (tags (sample_article ''u9'' None)))"
    by (simp add: sample_state_def)
  have r2: "uid (sample_article ''u9'' None) \<in> ids (initial ''db'') \<or> ''h9'' \<in> hashes (initial ''db'')
      \<or> (\<not> False \<and> \<not> truthy (tags (sample_article ''u9'' None)))"
    by (simp add: sample_article_def tags_def truthy_def)
  have r3: "uid (sample_article ''u1'' None) \<in> ids sample_state \<or> ''h9'' \<in> hashes sample_state
      \<or> (\<not> True \<and> \<not> truthy (tags (sample_article ''u1'' None)))"
    by (simp add: sample_state_def sample_article_def uid_def)
  show ?thesis
    using rejected_unchanged [rule_format, OF r1, of sample_dates "Some [''Paper X'']" "[]"]
      rejected_unchanged [rule_format, OF r2, of sample_dates None "[]"]
      rejected_unchanged [rule_format, OF r3, of sample_dates "Some [''Paper X'']" "[]"]
    by simp
qed

lemma trace_entries:
  "trace_ok dates st fin acc \<Longrightarrow> \<forall>x \<in> set (saved (db st)). entry x \<noteq> None \<Longrightarrow>
   \<forall>x \<in> set (saved (db fin)). entry x \<noteq> None"
  by (auto simp: trace_ok_def list_all_iff)

text \<open>
  Claim C4. A candidate that passes the test of the loop and whose hash has no entry date
  raises \<^verbatim>\<open>KeyError\<close>: the loop ends there with the state it had, nothing is saved
  for the candidate, and neither \<^verbatim>\<open>complete\<close> nor \<^verbatim>\<open>close\<close> is called. In every
  run each saved article carries an entry date.
\<close>

theorem missing_entry_date_raises:
  "(uid a \<notin> ids st \<and> h \<notin> hashes st \<and> (full \<or> truthy (tags a)) \<and> dates h = None \<longrightarrow>
      consume dates full st (h, a, cite) = Inl KeyError
      \<and> run_loop dates full st (Inr (h, a, cite) # rest) = (Some KeyError, st)
      \<and> finish (run_loop dates full st (Inr (h, a, cite) # rest)) = (Some KeyError, st))
   \<and> (run_loop dates full (initial u) results = (e, fin) \<longrightarrow>
        list_all (\<lambda>x. entry x \<noteq> None) (saved (db fin)))"
proof (intro conjI impI)
  assume a: "uid a \<notin> ids st \<and> h \<notin> hashes st \<and> (full \<or> truthy (tags a)) \<and> dates h = None"
  then have "fresh full st (h, a, cite)" by (simp add: fresh_def)
  with a have c: "consume dates full st (h, a, cite) = Inl KeyError"
    using consume_raise [of full st "(h, a, cite)" dates] by simp
  then show "consume dates full st (h, a, cite) = Inl KeyError" .
  from c show "run_loop dates full st (Inr (h, a, cite) # rest) = (Some KeyError, st)"
    by simp
  from c show "finish (run_loop dates full st (Inr (h, a, cite) # rest)) = (Some KeyError, st)"
    by (simp add: finish_def)
next
  assume "run_loop dates full (initial u) results = (e, fin)"
  then have "trace_ok dates (initial u) fin (accepted dates full (initial u) results)"
    by (rule run_loop_trace)
  then have "\<forall>x \<in> set (saved (db fin)). entry x \<noteq> None"
    by (rule trace_entries) (simp add: initial_def)
  then show "list_all (\<lambda>x. entry x \<noteq> None) (saved (db fin))"
    by (simp add: list_all_iff)
qed

theorem missing_entry_date_raises_witness:
  "run_loop sample_dates True sample_state
      [Inr (''h7'', sample_article ''u7'' None, None), Inr (''h1b'', sample_article ''u8'' None, None)]
     = (Some KeyError, sample_state)
   \<and> finish (run_loop sample_dates True sample_state
      [Inr (''h7'', sample_article ''u7'' None, None), Inr (''h1b'', sample_article ''u8'' None, None)])
     = (Some KeyError, sample_state)
   \<and> map entry (saved (db (snd (run_loop sample_dates True (initial ''db'') sample_results))))
     = [Some ''2020-03-01'', Some ''2020-04-01'']"
proof -
  have m: "sample_dates ''h7'' = None"
    by code_simp
  have p: "uid (sample_article ''u7'' None) \<notin> ids sample_state \<and> ''h7'' \<notin> hashes sample_state
      \<and> (True \<or> truthy (tags (sample_article ''u7'' None))) \<and> sample_dates ''h7'' = None"
    using m by (simp add: sample_state_def sample_article_def uid_def)
  have e: "map entry (saved (db (snd (run_loop sample_dates True (initial ''db'') sample_results))))
     = [Some ''2020-03-01'', Some ''2020-04-01'']"
    by code_simp
  obtain ex fin where rl: "run_loop sample_dates True (initial ''db'') sample_results = (ex, fin)"
    by (cases "run_loop sample_dates True (initial ''db'') sample_results")
  have "list_all (\<lambda>x. entry x \<noteq> None) (saved (db fin))"
    by (rule missing_entry_date_raises [THEN conjunct2, rule_format, OF rl])
  have w: "consume sample_dates True sample_state (''h7'', sample_article ''u7'' None, None)
        = Inl KeyError
      \<and> run_loop sample_dates True sample_state
          [Inr (''h7'', sample_article ''u7'' None, None),
           Inr (''h1b'', sample_article ''u8'' None, None)] = (Some KeyError, sample_state)
      \<and> finish (run_loop sample_dates True sample_state
          [Inr (''h7'', sample_article ''u7'' None, None),
           Inr (''h1b'', sample_article ''u8'' None, None)]) = (Some KeyError, sample_state)"
    by (rule missing_entry_date_raises [where a = "sample_article ''u7'' None"
        and st = sample_state and h = "''h7''" and full = True and dates = sample_dates
        and cite = None and rest = "[Inr (''h1b'', sample_article ''u8'' None, None)]",
        THEN conjunct1, rule_format, OF p])
  from w e show ?thesis by blast
qed

section \<open>The citation counter\<close>

text \<open>
  Claim C3, as stated, fails: in a full load an article without tags is accepted, and
  \<open>process\<close> has cleared its citation titles. In the sample, row B is accepted, its
  companion file cites \<^verbatim>\<open>Paper U\<close>, and the counter of the finished run has no entry
  for that title.
\<close>

theorem citations_untagged_counterexample:
  "run sample_env [0] ''data'' ''db'' ''models'' [] True \<noteq> None
   \<and> fst (the (run sample_env [0] ''data'' ''db'' ''models'' [] True)) = None
   \<and> map uid (saved (db (snd (the (run sample_env [0] ''data'' ''db'' ''models'' [] True)))))
       = [Some ''u1'', Some ''u2'']
   \<and> uid (fst (snd (projr (process sample_env (rowB, ''data'', ''models''))))) = Some ''u2''
   \<and> tags (fst (snd (projr (process sample_env (rowB, ''data'', ''models''))))) = None
   \<and> ''Paper U'' \<in> set (snd (fst (parse sample_env rowB ''data'')))
   \<and> citations (snd (the (run sample_env [0] ''data'' ''db'' ''models'' [] True))) ''Paper U'' = None"
  by code_simp

text \<open>
  Claim C3, amended. The counter of a run is what \<^verbatim>\<open>Counter.update\<close> makes of the
  citation titles of the accepted candidates, in order, so its keys are exactly the
  titles that some accepted candidate carries. A candidate carries titles only if its
  article has tags, and then they are the titles collected from the companion files of
  its row; a candidate without tags carries none. Rejected candidates add nothing.
\<close>

theorem citations_of_tagged_accepted:
  "(run_loop dates full (initial u) results = (e, fin) \<longrightarrow>
      citations fin
        = fold (\<lambda>c m. counter_update m (snd (snd c))) (accepted dates full (initial u) results)
            Map.empty
      \<and> dom (citations fin)
        = {t. \<exists>c \<in> set (accepted dates full (initial u) results).
                \<exists>ts. snd (snd c) = Some ts \<and> t \<in> set ts})
   \<and> (process E (r, indir, models) = Inr (h, a, cite) \<longrightarrow>
        cite = (if truthy (tags a) then Some (snd (fst (parse E r indir))) else None))"
proof (intro conjI impI)
  assume "run_loop dates full (initial u) results = (e, fin)"
  then have "trace_ok dates (initial u) fin (accepted dates full (initial u) results)"
    by (rule run_loop_trace)
  then show c: "citations fin
        = fold (\<lambda>c m. counter_update m (snd (snd c))) (accepted dates full (initial u) results)
            Map.empty"
    by (simp add: trace_ok_def initial_def)
  show "dom (citations fin)
        = {t. \<exists>c \<in> set (accepted dates full (initial u) results).
                \<exists>ts. snd (snd c) = Some ts \<and> t \<in> set ts}"
    unfolding c by (simp add: dom_fold_counter)
next
  assume "process E (r, indir, models) = Inr (h, a, cite)"
  then show "cite = (if truthy (tags a) then Some (snd (fst (parse E r indir))) else None)"
    using process_Inr_parts by blast
qed

theorem citations_of_tagged_accepted_witness:
  "citations (snd (run_loop sample_dates True (initial ''db'') sample_results)) ''Paper S'' = Some 1
   \<and> citations (snd (run_loop sample_dates True (initial ''db'') sample_results)) ''Paper U'' = None
   \<and> snd (snd (projr (process sample_env (rowA, ''data'', ''models''))))
       = Some (snd (fst (parse sample_env rowA ''data'')))
   \<and> snd (snd (projr (process sample_env (rowB, ''data'', ''models'')))) = None"
proof -
  obtain e fin where rl: "run_loop sample_dates True (initial ''db'') sample_results = (e, fin)"
    by (cases "run_loop sample_dates True (initial ''db'') sample_results")
  have f: "fold (\<lambda>c m. counter_update m (snd (snd c)))
        (accepted sample_dates True (initial ''db'') sample_results) Map.empty ''Paper S'' = Some 1
      \<and> fold (\<lambda>c m. counter_update m (snd (snd c)))
        (accepted sample_dates True (initial ''db'') sample_results) Map.empty ''Paper U'' = None"
    by code_simp
  have w1: "citations fin ''Paper S'' = Some 1 \<and> citations fin ''Paper U'' = None"
    using citations_of_tagged_accepted [THEN conjunct1, rule_format, OF rl, THEN conjunct1] f
    by simp
  obtain ha aa ca where pa: "process sample_env (rowA, ''data'', ''models'') = Inr (ha, aa, ca)"
    and ta: "truthy (tags aa)"
  proof -
    have "case process sample_env (rowA, ''data'', ''models'') of
            Inl e \<Rightarrow> False | Inr (h, a, c) \<Rightarrow> truthy (tags a)"
      by code_simp
    then show ?thesis
      using that by (cases "process sample_env (rowA, ''data'', ''models'')") auto
  qed
  obtain hb ab cb where pb: "process sample_env (rowB, ''data'', ''models'') = Inr (hb, ab, cb)"
    and tb: "\<not> truthy (tags ab)"
  proof -
    have "case process sample_env (rowB, ''data'', ''models'') of
            Inl e \<Rightarrow> False | Inr (h, a, c) \<Rightarrow> \<not> truthy (tags a)"
      by code_simp
    then show ?thesis
      using that by (cases "process sample_env (rowB, ''data'', ''models'')") auto
  qed
  have w2: "ca = Some (snd (fst (parse sample_env rowA ''data'')))"
    using citations_of_tagged_accepted [THEN conjunct2, rule_format, OF pa] ta by simp
  have w3: "cb = None"
    using citations_of_tagged_accepted [THEN conjunct2, rule_format, OF pb] tb by simp
  show ?thesis
    using w1 w2 w3 by (simp add: rl pa pb)
qed

section \<open>Companion files that cannot be read\<close>

lemma parse_file_fail:
  "json_load E (path_join directory p) = Inl ex \<Longrightarrow>
   parse_file E directory p (secs, cits, printed)
     = (secs, cits, printed @ [(path_join directory p, ex)])"
  by (simp add: parse_file_def Let_def)

lemma parse_file_frame0:
  "fst (parse_file E directory p (s, c, l)) = fst (parse_file E directory p (s, c, l'))
   \<and> fst (snd (parse_file E directory p (s, c, l)))
     = fst (snd (parse_file E directory p (s, c, l')))"
  by (simp add: parse_file_def Let_def split: sum.split option.split)

lemma parse_file_frame:
  "fst st1 = fst st2 \<Longrightarrow> fst (snd st1) = fst (snd st2) \<Longrightarrow>
   fst (parse_file E directory p st1) = fst (parse_file E directory p st2)
   \<and> fst (snd (parse_file E directory p st1)) = fst (snd (parse_file E directory p st2))"
  using parse_file_frame0 [of E directory p "fst st1" "fst (snd st1)" "snd (snd st1)" "snd (snd st2)"]
  by (cases st1, cases st2) simp

lemma fold_parse_file_frame:
  "fst st1 = fst st2 \<Longrightarrow> fst (snd st1) = fst (snd st2) \<Longrightarrow>
   fst (fold (parse_file E directory) ps st1) = fst (fold (parse_file E directory) ps st2)
   \<and> fst (snd (fold (parse_file E directory) ps st1))
     = fst (snd (fold (parse_file E directory) ps st2))"
proof (induction ps arbitrary: st1 st2)
  case Nil
  then show ?case by simp
next
  case (Cons p ps)
  have a: "fst (parse_file E directory p st1) = fst (parse_file E directory p st2)"
    and b: "fst (snd (parse_file E directory p st1)) = fst (snd (parse_file E directory p st2))"
    using parse_file_frame [OF Cons.prems, of E directory p] by blast+
  show ?case
    using Cons.IH [OF a b] by simp
qed

lemma parse_file_printed:
  "set (snd (snd st)) \<subseteq> set (snd (snd (parse_file E directory p st)))"
  by (cases st) (auto simp: parse_file_def Let_def split: sum.split option.split)

lemma parse_paths_fst:
  "fst (parse_paths E r directory ps)
     = filtered (fst (fold (parse_file E directory) ps (front_sections E r, [], [])))
         (fst (snd (fold (parse_file E directory) ps (front_sections E r, [], []))))"
  by (simp add: parse_paths_def case_prod_beta)

lemma parse_paths_snd:
  "snd (parse_paths E r directory ps)
     = snd (snd (fold (parse_file E directory) ps (front_sections E r, [], [])))"
  by (simp add: parse_paths_def case_prod_beta)

lemma fold_parse_file_printed:
  "set (snd (snd st)) \<subseteq> set (snd (snd (fold (parse_file E directory) ps st)))"
proof (induction ps arbitrary: st)
  case Nil
  then show ?case by simp
next
  case (Cons p ps)
  show ?case
    using parse_file_printed [of st E directory p] Cons.IH [of "parse_file E directory p st"]
    by auto
qed

text \<open>
  Claim C9. When a companion file cannot be opened or loaded, the pass of the loop for
  that file prints the error with the path and leaves the sections and the citation
  titles as they were. The sections and titles that \<open>parse\<close> returns are then the ones
  it returns for the same row without that path: the title, the abstract and the other
  files contribute as before. \<open>parse\<close> has no exceptional result: every exception of the
  \<^verbatim>\<open>try\<close> block is caught.
\<close>

theorem unreadable_file_skipped:
  "json_load E (path_join directory p) = Inl ex \<longrightarrow>
     parse_file E directory p (secs, cits, printed)
       = (secs, cits, printed @ [(path_join directory p, ex)])
     \<and> fst (parse_paths E r directory (ps @ p # qs)) = fst (parse_paths E r directory (ps @ qs))
     \<and> (path_join directory p, ex) \<in> set (snd (parse_paths E r directory (ps @ p # qs)))
     \<and> (files r = ps @ p # qs \<longrightarrow>
          fst (parse E r directory) = fst (parse_paths E r directory (ps @ qs)))"
proof
  assume fail: "json_load E (path_join directory p) = Inl ex"
  let ?st = "fold (parse_file E directory) ps (front_sections E r, [], [])"
  obtain s c l where st: "?st = (s, c, l)" by (cases ?st)
  have step: "parse_file E directory p ?st = (s, c, l @ [(path_join directory p, ex)])"
    using fail by (simp add: st parse_file_fail)
  have frame: "fst (fold (parse_file E directory) qs (parse_file E directory p ?st))
        = fst (fold (parse_file E directory) qs ?st)
      \<and> fst (snd (fold (parse_file E directory) qs (parse_file E directory p ?st)))
        = fst (snd (fold (parse_file E directory) qs ?st))"
  proof (rule fold_parse_file_frame)
    show "fst (parse_file E directory p ?st) = fst ?st"
      using step st by simp
    show "fst (snd (parse_file E directory p ?st)) = fst (snd ?st)"
      using step st by simp
  qed
  have eq: "fst (parse_paths E r directory (ps @ p # qs)) = fst (parse_paths E r directory (ps @ qs))"
    using frame by (simp add: parse_paths_fst)
  have "(path_join directory p, ex) \<in> set (snd (snd (parse_file E directory p ?st)))"
    by (simp add: step)
  then have "(path_join directory p, ex)
      \<in> set (snd (snd (fold (parse_file E directory) qs (parse_file E directory p ?st))))"
    using fold_parse_file_printed [of "parse_file E directory p ?st" E directory qs] by blast
  then have pr: "(path_join directory p, ex) \<in> set (snd (parse_paths E r directory (ps @ p # qs)))"
    by (simp add: parse_paths_snd)
  have one: "parse_file E directory p (secs, cits, printed)
       = (secs, cits, printed @ [(path_join directory p, ex)])"
    using fail by (rule parse_file_fail)
  from one eq pr
  show "parse_file E directory p (secs, cits, printed)
       = (secs, cits, printed @ [(path_join directory p, ex)])
     \<and> fst (parse_paths E r directory (ps @ p # qs)) = fst (parse_paths E r directory (ps @ qs))
     \<and> (path_join directory p, ex) \<in> set (snd (parse_paths E r directory (ps @ p # qs)))
     \<and> (files r = ps @ p # qs \<longrightarrow>
          fst (parse E r directory) = fst (parse_paths E r directory (ps @ qs)))"
    by (simp add: parse_def)
qed

theorem unreadable_file_skipped_witness:
  "fst (parse sample_env rowB ''data'') = fst (parse_paths sample_env rowB ''data'' [''b.json''])
   \<and> fst (parse sample_env rowB ''data'')
       = ([(Some ''TITLE'', ''Old flu''), (None, ''COVID-19 spreads'')], [''Paper U''])
   \<and> (''data/missing.json'', OSError) \<in> set (snd (parse sample_env rowB ''data''))"
proof -
  have f: "files rowB = [''b.json''] @ ''missing.json'' # []"
    by code_simp
  have j: "path_join ''data'' ''missing.json'' = ''data/missing.json''"
    by code_simp
  have l: "json_load sample_env (path_join ''data'' ''missing.json'') = Inl OSError"
    unfolding j by (simp add: sample_env_def)
  have v: "fst (parse_paths sample_env rowB ''data'' [''b.json''])
      = ([(Some ''TITLE'', ''Old flu''), (None, ''COVID-19 spreads'')], [''Paper U''])"
    by code_simp
  have w: "fst (parse_paths sample_env rowB ''data'' ([''b.json''] @ ''missing.json'' # []))
       = fst (parse_paths sample_env rowB ''data'' ([''b.json''] @ []))
     \<and> (path_join ''data'' ''missing.json'', OSError)
         \<in> set (snd (parse_paths sample_env rowB ''data'' ([''b.json''] @ ''missing.json'' # [])))"
    using unreadable_file_skipped [rule_format, OF l, of "[]" "[]" "[]" rowB "[''b.json'']" "[]"]
    by blast
  show ?thesis
    using w v f j by (simp add: parse_def)
qed

section \<open>The order of the results\<close>

lemma finished_fold:
  "i < length tasks \<Longrightarrow> i \<in> set schedule \<or> cache i = Some (run_task f (tasks ! i)) \<Longrightarrow>
   fold (\<lambda>i cache. if i < length tasks then cache(i \<mapsto> run_task f (tasks ! i)) else cache)
     schedule cache i = Some (run_task f (tasks ! i))"
proof (induction schedule arbitrary: cache)
  case Nil
  then show ?case by simp
next
  case (Cons j js)
  let ?c = "if j < length tasks then cache(j \<mapsto> run_task f (tasks ! j)) else cache"
  have "i \<in> set js \<or> ?c i = Some (run_task f (tasks ! i))"
    using Cons.prems by auto
  with Cons.prems(1) show ?case
    using Cons.IH [of ?c] by simp
qed

lemma finished_lookup:
  "i < length tasks \<Longrightarrow> i \<in> set schedule \<Longrightarrow>
   finished f tasks schedule i = Some (run_task f (tasks ! i))"
  unfolding finished_def by (rule finished_fold) simp_all

lemma those_map_Some:
  "(\<And>x. x \<in> set xs \<Longrightarrow> f x = Some (g x)) \<Longrightarrow> those (map f xs) = Some (map g xs)"
  by (induction xs) simp_all

lemma imap_delivers:
  assumes "{..<length (get_tasks n input)} \<subseteq> set schedule"
  shows "imap f input n schedule = Some (deliver (map (run_task f) (get_tasks n input)))"
proof -
  let ?tasks = "get_tasks n input"
  have a: "those (map (finished f ?tasks schedule) [0..<length ?tasks])
      = Some (map (\<lambda>i. run_task f (?tasks ! i)) [0..<length ?tasks])"
  proof (rule those_map_Some)
    fix i assume "i \<in> set [0..<length ?tasks]"
    then have "i < length ?tasks" by simp
    moreover from this assms have "i \<in> set schedule" by auto
    ultimately show "finished f ?tasks schedule i = Some (run_task f (?tasks ! i))"
      by (rule finished_lookup)
  qed
  have b: "map (\<lambda>i. run_task f (?tasks ! i)) [0..<length ?tasks] = map (run_task f) ?tasks"
    by (rule nth_equalityI) simp_all
  show ?thesis
    unfolding imap_def Let_def a b by simp
qed

lemma concat_chunks: "0 < n \<Longrightarrow> concat (chunks n xs) = xs"
proof (induction n xs rule: chunks.induct)
  case (1 n xs)
  show ?case
  proof (cases "xs = []")
    case True
    then show ?thesis by (simp add: chunks.simps)
  next
    case False
    with 1 have "concat (chunks n (drop n xs)) = drop n xs" by simp
    with False 1(2) show ?thesis
      by (subst chunks.simps) simp
  qed
qed

lemma traverse_ok:
  "\<forall>x \<in> set xs. \<exists>y. f x = Inr y \<Longrightarrow> \<exists>ys. traverse f xs = Inr ys \<and> map Inr ys = map f xs"
proof (induction xs)
  case Nil
  then show ?case by simp
next
  case (Cons x xs)
  then obtain y where y: "f x = Inr y" by auto
  from Cons obtain ys where ys: "traverse f xs = Inr ys" "map Inr ys = map f xs" by auto
  show ?case using y ys by simp
qed

lemma deliver_ok:
  "\<forall>x \<in> set (concat cs). \<exists>y. f x = Inr y \<Longrightarrow>
   deliver (map (run_task f) (map Chunk cs)) = map f (concat cs)"
proof (induction cs)
  case Nil
  then show ?case by simp
next
  case (Cons c cs)
  then have "\<forall>x \<in> set c. \<exists>y. f x = Inr y" by simp
  then obtain ys where ys: "traverse f c = Inr ys" "map Inr ys = map f c"
    using traverse_ok [of c f] by blast
  then have m: "run_task f (Chunk c) = Inr ys" by (simp add: mapstar_def)
  from Cons have "deliver (map (run_task f) (map Chunk cs)) = map f (concat cs)" by simp
  with ys m show ?case by simp
qed

text \<open>
  Claim C2, as stated, fails when the processing of a row raises, and when the reading
  of the input raises: the rows of one chunk are one task of the pool, and a task in
  which a row raises, or during whose reading the input raises, delivers only the
  exception. In the sample with the failing annotation service, row B comes first and
  is accepted by the sequential run before the processing of row A raises; the run with
  the pool gets the exception in place of the whole chunk and saves nothing. The same
  happens when the reading of the metadata file raises after row B.
\<close>

theorem pool_order_counterexample:
  "map_option (\<lambda>x. (fst x, map uid (saved (db (snd x)))))
      (run failing_env [0] ''data'' ''db'' ''models'' [] True)
     = Some (Some (ServiceError ''no model''), [])
   \<and> (\<lambda>x. (fst x, map uid (saved (db (snd x)))))
        (run_sequential failing_env ''data'' ''db'' ''models'' [] True)
     = (Some (ServiceError ''no model''), [Some ''u2''])
   \<and> run failing_env [0] ''data'' ''db'' ''models'' [] True
     \<noteq> Some (run_sequential failing_env ''data'' ''db'' ''models'' [] True)
   \<and> map_option (\<lambda>x. (fst x, map uid (saved (db (snd x)))))
        (run broken_env [0] ''data'' ''db'' ''models'' [] True)
     = Some (Some ValueError, [])
   \<and> (\<lambda>x. (fst x, map uid (saved (db (snd x)))))
        (run_sequential broken_env ''data'' ''db'' ''models'' [] True)
     = (Some ValueError, [Some ''u2''])
   \<and> run broken_env [0] ''data'' ''db'' ''models'' [] True
     \<noteq> Some (run_sequential broken_env ''data'' ''db'' ''models'' [] True)"
proof -
  have p: "map_option (\<lambda>x. (fst x, map uid (saved (db (snd x)))))
      (run failing_env [0] ''data'' ''db'' ''models'' [] True)
     = Some (Some (ServiceError ''no model''), [])"
    by code_simp
  have s: "(\<lambda>x. (fst x, map uid (saved (db (snd x)))))
        (run_sequential failing_env ''data'' ''db'' ''models'' [] True)
     = (Some (ServiceError ''no model''), [Some ''u2''])"
    by code_simp
  have n1: "run failing_env [0] ''data'' ''db'' ''models'' [] True
     \<noteq> Some (run_sequential failing_env ''data'' ''db'' ''models'' [] True)"
  proof
    assume "run failing_env [0] ''data'' ''db'' ''models'' [] True
      = Some (run_sequential failing_env ''data'' ''db'' ''models'' [] True)"
    with p s show False by simp
  qed
  have p': "map_option (\<lambda>x. (fst x, map uid (saved (db (snd x)))))
        (run broken_env [0] ''data'' ''db'' ''models'' [] True)
     = Some (Some ValueError, [])"
    by code_simp
  have s': "(\<lambda>x. (fst x, map uid (saved (db (snd x)))))
        (run_sequential broken_env ''data'' ''db'' ''models'' [] True)
     = (Some ValueError, [Some ''u2''])"
    by code_simp
  have n2: "run broken_env [0] ''data'' ''db'' ''models'' [] True
     \<noteq> Some (run_sequential broken_env ''data'' ''db'' ''models'' [] True)"
  proof
    assume "run broken_env [0] ''data'' ''db'' ''models'' [] True
      = Some (run_sequential broken_env ''data'' ''db'' ''models'' [] True)"
    with p' s' show False by simp
  qed
  from p s n1 p' s' n2 show ?thesis by blast
qed

text \<open>
  Claim C2, amended. For every schedule in which each task is finished at some point,
  the run returns, and its result does not depend on the schedule: it is the loop folded
  over the results of the tasks, the chunks of 100 rows in the order of the input file.
  When neither the reading of the input nor the processing of a row raises, this is the
  result of the sequential run: the same articles saved in the same order, the same sets
  and the same citation counter.
\<close>

theorem pool_order:
  "{..<length (get_tasks 100 (stream E indir (snd (defaults E dburl models))))} \<subseteq> set schedule \<longrightarrow>
     run E schedule indir dburl models entryfile full
       = Some (finish (run_loop (entryDates E indir entryfile) full
                 (initial (fst (defaults E dburl models)))
                 (deliver (map (run_task (process E))
                    (get_tasks 100 (stream E indir (snd (defaults E dburl models))))))))
     \<and> (snd (stream E indir (snd (defaults E dburl models))) = None
          \<and> (\<forall>x \<in> set (fst (stream E indir (snd (defaults E dburl models)))).
                \<exists>c. process E x = Inr c) \<longrightarrow>
          run E schedule indir dburl models entryfile full
            = Some (run_sequential E indir dburl models entryfile full))"
proof
  let ?input = "stream E indir (snd (defaults E dburl models))"
  assume s: "{..<length (get_tasks 100 ?input)} \<subseteq> set schedule"
  have d: "imap (process E) ?input 100 schedule
      = Some (deliver (map (run_task (process E)) (get_tasks 100 ?input)))"
    using s by (rule imap_delivers)
  have r: "run E schedule indir dburl models entryfile full
       = Some (finish (run_loop (entryDates E indir entryfile) full
                 (initial (fst (defaults E dburl models)))
                 (deliver (map (run_task (process E)) (get_tasks 100 ?input)))))"
    using d by (simp add: run_def case_prod_beta Let_def)
  have q: "snd ?input = None \<and> (\<forall>x \<in> set (fst ?input). \<exists>c. process E x = Inr c) \<longrightarrow>
      run E schedule indir dburl models entryfile full
        = Some (run_sequential E indir dburl models entryfile full)"
  proof
    assume a: "snd ?input = None \<and> (\<forall>x \<in> set (fst ?input). \<exists>c. process E x = Inr c)"
    obtain xs where i: "?input = (xs, None)"
      using a by (cases ?input) simp
    from a i have "\<forall>x \<in> set (concat (chunks 100 xs)). \<exists>c. process E x = Inr c"
      by (simp add: concat_chunks)
    then have "deliver (map (run_task (process E)) (map Chunk (chunks 100 xs)))
        = map (process E) (concat (chunks 100 xs))"
      by (rule deliver_ok)
    then have "deliver (map (run_task (process E)) (get_tasks 100 ?input))
        = sequential_results (process E) ?input"
      by (simp add: i get_tasks_def sequential_results_def concat_chunks)
    with r show "run E schedule indir dburl models entryfile full
        = Some (run_sequential E indir dburl models entryfile full)"
      by (simp add: run_sequential_def case_prod_beta Let_def)
  qed
  from r q show "run E schedule indir dburl models entryfile full
       = Some (finish (run_loop (entryDates E indir entryfile) full
                 (initial (fst (defaults E dburl models)))
                 (deliver (map (run_task (process E)) (get_tasks 100 ?input)))))
     \<and> (snd ?input = None \<and> (\<forall>x \<in> set (fst ?input). \<exists>c. process E x = Inr c) \<longrightarrow>
          run E schedule indir dburl models entryfile full
            = Some (run_sequential E indir dburl models entryfile full))"
    by blast
qed

theorem pool_order_witness:
  "length (get_tasks 100 (stream large_env ''data'' (snd (defaults large_env ''db'' ''models'')))) = 2
   \<and> run large_env [0, 1] ''data'' ''db'' ''models'' [] True
     = Some (run_sequential large_env ''data'' ''db'' ''models'' [] True)
   \<and> run large_env [1, 0] ''data'' ''db'' ''models'' [] True
     = Some (run_sequential large_env ''data'' ''db'' ''models'' [] True)
   \<and> map uid (saved (db (snd (run_sequential large_env ''data'' ''db'' ''models'' [] True))))
     = [Some ''u0'', Some ''u1'', Some ''u2'']"
proof -
  let ?input = "stream large_env ''data'' (snd (defaults large_env ''db'' ''models''))"
  have n: "length (get_tasks 100 ?input) = 2"
    by code_simp
  have s1: "{..<length (get_tasks 100 ?input)} \<subseteq> set [0, 1]"
    unfolding n by auto
  have s2: "{..<length (get_tasks 100 ?input)} \<subseteq> set [1, 0]"
    unfolding n by auto
  have e: "snd ?input = None"
    by code_simp
  have l: "list_all (\<lambda>x. case process large_env x of Inl e \<Rightarrow> False | Inr c \<Rightarrow> True) (fst ?input)"
    by code_simp
  have ok: "\<forall>x \<in> set (fst ?input). \<exists>c. process large_env x = Inr c"
  proof
    fix x assume "x \<in> set (fst ?input)"
    with l have "case process large_env x of Inl e \<Rightarrow> False | Inr c \<Rightarrow> True"
      by (simp add: list_all_iff)
    then show "\<exists>c. process large_env x = Inr c"
      by (cases "process large_env x") (simp, blast)
  qed
  have v: "map uid (saved (db (snd (run_sequential large_env ''data'' ''db'' ''models'' [] True))))
     = [Some ''u0'', Some ''u1'', Some ''u2'']"
    by code_simp
  have w1: "run large_env [0, 1] ''data'' ''db'' ''models'' [] True
     = Some (run_sequential large_env ''data'' ''db'' ''models'' [] True)"
    using pool_order [THEN mp, OF s1, THEN conjunct2, THEN mp, OF conjI, OF e ok] .
  have w2: "run large_env [1, 0] ''data'' ''db'' ''models'' [] True
     = Some (run_sequential large_env ''data'' ''db'' ''models'' [] True)"
    using pool_order [THEN mp, OF s2, THEN conjunct2, THEN mp, OF conjI, OF e ok] .
  from n w1 w2 v show ?thesis by blast
qed

end
